theory Spec2Isabelle
  imports Main
begin

section \<open>Python dictionaries\<close>

text \<open>
  A Python \<open>dict\<close> keeps its keys in insertion order and the loops of both scripts
  iterate over dictionaries, so a dictionary is an association list with distinct keys.
  Assigning to an existing key replaces the value in place; assigning to a new key
  appends.
\<close>

type_synonym ('k, 'v) dict = "('k \<times> 'v) list"

definition dict_get :: "('k, 'v) dict \<Rightarrow> 'k \<Rightarrow> 'v option" where
  "dict_get d k = map_of d k"

definition dict_keys :: "('k, 'v) dict \<Rightarrow> 'k list" where
  "dict_keys d = map fst d"

fun dict_set :: "('k, 'v) dict \<Rightarrow> 'k \<Rightarrow> 'v \<Rightarrow> ('k, 'v) dict" where
  "dict_set [] k v = [(k, v)]"
| "dict_set (p # ps) k v = (if fst p = k then (k, v) # ps else p # dict_set ps k v)"

text \<open>\<open>d.update(e)\<close>: every item of \<open>e\<close>, in order, is assigned into \<open>d\<close>.\<close>

fun dict_update :: "('k, 'v) dict \<Rightarrow> ('k, 'v) dict \<Rightarrow> ('k, 'v) dict" where
  "dict_update d [] = d"
| "dict_update d ((k, v) # e) = dict_update (dict_set d k v) e"

definition dict_del :: "('k, 'v) dict \<Rightarrow> 'k \<Rightarrow> ('k, 'v) dict" where
  "dict_del d k = filter (\<lambda>p. fst p \<noteq> k) d"

section \<open>The checksum manifest (\<open>.checksums.json\<close>)\<close>

text \<open>
  One manifest entry. \<open>checksum\<close> and \<open>modified\<close> are written by every writer of
  the file; \<open>drive_id\<close> and \<open>drive_modified\<close> are read with \<open>.get\<close>, so a missing
  key and a JSON \<open>null\<close> both read as \<open>None\<close>.
\<close>

record entry =
  checksum :: string
  modified :: string
  drive_id :: "string option"
  drive_modified :: "string option"

type_synonym manifest = "(string, entry) dict"

section \<open>Strings and paths\<close>

text \<open>\<open>s.endswith(suf)\<close>.\<close>

definition endswith :: "string \<Rightarrow> string \<Rightarrow> bool" where
  "endswith s suf \<longleftrightarrow> length suf \<le> length s \<and> drop (length s - length suf) s = suf"

text \<open>\<open>'/'.join(parts)\<close>, which is also \<open>str\<close> of a relative POSIX path.\<close>

fun join_path :: "string list \<Rightarrow> string" where
  "join_path [] = []"
| "join_path [c] = c"
| "join_path (c # cs) = c @ ''/'' @ join_path cs"

text \<open>
  The components of \<open>Path(s)\<close> for a relative path string: the string is cut at every
  \<open>/\<close>, and empty components and \<open>.\<close> are dropped.
\<close>

fun split_slash :: "string \<Rightarrow> string \<Rightarrow> string list" where
  "split_slash acc [] = [rev acc]"
| "split_slash acc (c # cs) =
     (if c = CHR ''/'' then rev acc # split_slash [] cs else split_slash (c # acc) cs)"

definition path_parts :: "string \<Rightarrow> string list" where
  "path_parts s = filter (\<lambda>c. c \<noteq> [] \<and> c \<noteq> ''.'') (split_slash [] s)"

text \<open>\<open>str.lower\<close> on the ASCII letters.\<close>

definition lower_char :: "char \<Rightarrow> char" where
  "lower_char c =
     (let n = (of_char c :: nat) in if 65 \<le> n \<and> n \<le> 90 then char_of (n + 32) else c)"

definition lower :: "string \<Rightarrow> string" where
  "lower s = map lower_char s"

section \<open>The local vault\<close>

text \<open>
  The vault is a directory tree. A file carries its bytes and its modification time (in
  the ISO form the scripts store); a directory lists its entries by name, in the order
  the operating system reports them.
\<close>

datatype fsnode = File (fbytes: string) (fmtime: string) | Dir (entries: "(string \<times> fsnode) list")

fun is_dir :: "fsnode \<Rightarrow> bool" where
  "is_dir (Dir _) = True"
| "is_dir (File _ _) = False"

fun fs_lookup :: "fsnode \<Rightarrow> string list \<Rightarrow> fsnode option" where
  "fs_lookup n [] = Some n"
| "fs_lookup (File _ _) (c # cs) = None"
| "fs_lookup (Dir es) (c # cs) =
     (case map_of es c of None \<Rightarrow> None | Some n \<Rightarrow> fs_lookup n cs)"

text \<open>\<open>(VAULT_PATH / p).exists()\<close>.\<close>

definition path_exists :: "fsnode \<Rightarrow> string \<Rightarrow> bool" where
  "path_exists vault p \<longleftrightarrow> fs_lookup vault (path_parts p) \<noteq> None"

text \<open>
  \<open>VAULT_PATH.glob('**/*.md')\<close>: for the directory itself and then for every
  directory below it, the entries whose name matches \<open>*.md\<close>. The pattern looks at the
  name only, so a directory called \<open>x.md\<close> is matched as well. The result holds the
  paths relative to the vault, as lists of components.
\<close>

fun glob_md :: "string list \<Rightarrow> fsnode \<Rightarrow> string list list" where
  "glob_md pre (File _ _) = []"
| "glob_md pre (Dir es) =
     map (\<lambda>e. pre @ [fst e]) (filter (\<lambda>e. endswith (fst e) ''.md'') es)
     @ concat (map (\<lambda>e. glob_md (pre @ [fst e]) (snd e)) es)"

definition get_all_notes :: "fsnode \<Rightarrow> string list list" where
  "get_all_notes vault = glob_md [] vault"

text \<open>Exceptions the modelled operations raise.\<close>

datatype exn =
  FileNotFoundError | FileExistsError | IsADirectoryError | NotADirectoryError | HttpError | KeyError

text \<open>
  \<open>calculate_checksum\<close> opens the file and feeds its bytes to SHA-256. The digest
  function is the parameter \<open>H\<close>. Opening a directory or a missing path raises.
\<close>

definition calculate_checksum :: "(string \<Rightarrow> string) \<Rightarrow> fsnode \<Rightarrow> string list \<Rightarrow> exn + string" where
  "calculate_checksum H vault parts =
     (case fs_lookup vault parts of
        None \<Rightarrow> Inl FileNotFoundError
      | Some (Dir es) \<Rightarrow> Inl IsADirectoryError
      | Some (File b m) \<Rightarrow> Inr (H b))"

text \<open>\<open>datetime.fromtimestamp(p.stat().st_mtime).isoformat()\<close>.\<close>

definition stat_mtime :: "fsnode \<Rightarrow> string list \<Rightarrow> exn + string" where
  "stat_mtime vault parts =
     (case fs_lookup vault parts of
        None \<Rightarrow> Inl FileNotFoundError
      | Some (Dir es) \<Rightarrow> Inr []
      | Some (File b m) \<Rightarrow> Inr m)"

fun fs_remove :: "fsnode \<Rightarrow> string list \<Rightarrow> fsnode" where
  "fs_remove n [] = n"
| "fs_remove (File b m) (c # cs) = File b m"
| "fs_remove (Dir es) [c] = Dir (filter (\<lambda>e. fst e \<noteq> c) es)"
| "fs_remove (Dir es) (c # cs) =
     Dir (map (\<lambda>e. if fst e = c then (fst e, fs_remove (snd e) cs) else e) es)"

text \<open>\<open>local_path.unlink()\<close>: removes a file, raises on a directory or a missing path.\<close>

definition unlink :: "fsnode \<Rightarrow> string list \<Rightarrow> exn + fsnode" where
  "unlink vault parts =
     (case fs_lookup vault parts of
        None \<Rightarrow> Inl FileNotFoundError
      | Some (Dir es) \<Rightarrow> Inl IsADirectoryError
      | Some (File b m) \<Rightarrow> Inr (fs_remove vault parts))"

fun new_dirs :: "string list \<Rightarrow> fsnode" where
  "new_dirs [] = Dir []"
| "new_dirs (c # cs) = Dir [(c, new_dirs cs)]"

text \<open>
  \<open>path.mkdir(parents=True, exist_ok=True)\<close>: the missing directories of the path are
  created; a file anywhere on the path raises.
\<close>

fun mkdir_parents :: "fsnode \<Rightarrow> string list \<Rightarrow> exn + fsnode" where
  "mkdir_parents (Dir es) [] = Inr (Dir es)"
| "mkdir_parents (File b0 m0) [] = Inl FileExistsError"
| "mkdir_parents (File b0 m0) (c # cs) = Inl NotADirectoryError"
| "mkdir_parents (Dir es) (c # cs) =
     (case map_of es c of
        None \<Rightarrow> Inr (Dir (es @ [(c, new_dirs cs)]))
      | Some n \<Rightarrow>
          (case mkdir_parents n cs of
             Inl e \<Rightarrow> Inl e
           | Inr n' \<Rightarrow> Inr (Dir (dict_set es c n'))))"

text \<open>
  \<open>open(local_path, 'wb').write(bytes)\<close>: a new file is created in an existing
  directory, an existing file is overwritten; a directory at the path, a file on the way
  to it, or a missing parent raises.
\<close>

fun write_file :: "fsnode \<Rightarrow> string list \<Rightarrow> string \<Rightarrow> string \<Rightarrow> exn + fsnode" where
  "write_file (File b0 m0) [] b m = Inr (File b m)"
| "write_file (Dir es) [] b m = Inl IsADirectoryError"
| "write_file (File b0 m0) (c # cs) b m = Inl NotADirectoryError"
| "write_file (Dir es) (c # cs) b m =
     (case map_of es c of
        None \<Rightarrow> (if cs = [] then Inr (Dir (es @ [(c, File b m)])) else Inl FileNotFoundError)
      | Some n \<Rightarrow>
          (case write_file n cs b m of
             Inl e \<Rightarrow> Inl e
           | Inr n' \<Rightarrow> Inr (Dir (dict_set es c n'))))"

section \<open>The empty-directory compactor\<close>

definition PRESERVE_FOLDERS :: "string set" where
  "PRESERVE_FOLDERS = {''img'', ''weekly'', ''neovim''}"

text \<open>
  \<open>cleanup_empty_folders(path)\<close>: for every entry of \<open>path\<close> that is a directory,
  first compact that directory, then remove it when it has become (or was) empty and its
  lower-cased name is not preserved. \<open>path\<close> itself is never removed.
\<close>

fun cleanup_empty_folders :: "fsnode \<Rightarrow> fsnode" where
  "cleanup_empty_folders (File b m) = File b m"
| "cleanup_empty_folders (Dir es) =
     Dir (concat (map (\<lambda>item.
        if is_dir (snd item) then
          (let d = cleanup_empty_folders (snd item)
           in if entries d = [] \<and> lower (fst item) \<notin> PRESERVE_FOLDERS then []
              else [(fst item, d)])
        else [item]) es))"

text \<open>A directory tree of a real file system: the names in one directory are distinct.\<close>

fun wf_fs :: "fsnode \<Rightarrow> bool" where
  "wf_fs (File b m) = True"
| "wf_fs (Dir es) = (distinct (map fst es) \<and> (\<forall>e \<in> set es. wf_fs (snd e)))"

section \<open>The remote store\<close>

text \<open>
  The Drive folder is a tree of objects. Every object has an identifier, a name, a MIME
  type, a modification time and, for a file, its bytes; a folder has children, in the
  order the service lists them.
\<close>

datatype rnode =
  RNode (rid: string) (rname: string) (rmime: string) (rmodified: string) (rbytes: string)
    (rkids: "rnode list")

definition FOLDER_MIME :: string where
  "FOLDER_MIME = ''application/vnd.google-apps.folder''"

definition DRIVE_FOLDER_ID :: string where
  "DRIVE_FOLDER_ID = ''1rtokeqgAen02UyJDbPtBVCyczk5ssqhG''"

text \<open>
  \<open>service.files().list(q="'<folder_id>' in parents and trashed=false", pageSize=1000)
  .execute().get('files', [])\<close>: one request, answered with the first page of the
  children; the continuation token of the answer is not read. A page holds at most
  \<open>pageSize\<close> children and the service may cut it shorter: \<open>short_pages\<close> gives, for
  the folders where it does, the length of the first page.
\<close>

definition page_length :: "(string, nat) dict \<Rightarrow> string \<Rightarrow> nat" where
  "page_length short_pages folder_id =
     (case dict_get short_pages folder_id of None \<Rightarrow> 1000 | Some k \<Rightarrow> min 1000 k)"

definition files_list :: "(string, nat) dict \<Rightarrow> rnode \<Rightarrow> rnode list" where
  "files_list short_pages folder = take (page_length short_pages (rid folder)) (rkids folder)"

record drive_info =
  info_id :: string
  info_modified :: string

definition recognized :: "string \<Rightarrow> bool" where
  "recognized item_name \<longleftrightarrow>
     endswith item_name ''.md'' \<or> endswith item_name ''.txt'' \<or>
     endswith item_name ''.png'' \<or> endswith item_name ''.jpg'' \<or>
     endswith item_name ''.jpeg'' \<or> endswith item_name ''.gif'' \<or>
     endswith item_name ''.webp'' \<or> endswith item_name ''.svg''"

text \<open>\<open>f"{path}/{item_name}" if path else item_name\<close>.\<close>

definition child_path :: "string \<Rightarrow> string \<Rightarrow> string" where
  "child_path path item_name = (if path \<noteq> [] then path @ ''/'' @ item_name else item_name)"

text \<open>
  \<open>list_drive_files(service, folder_id, path)\<close>. The folder is given by its node: the
  service answers the children query for \<open>folder_id\<close> from that folder.
\<close>

function list_drive_files ::
  "(string, nat) dict \<Rightarrow> rnode \<Rightarrow> string \<Rightarrow> (string, drive_info) dict" where
  "list_drive_files short_pages (RNode i n mt mo b ks) path =
     foldl (\<lambda>files_dict item.
        if rmime item = FOLDER_MIME then
          dict_update files_dict
            (list_drive_files short_pages item (child_path path (rname item)))
        else if recognized (rname item) then
          dict_set files_dict (child_path path (rname item))
            \<lparr>info_id = rid item, info_modified = rmodified item\<rparr>
        else files_dict)
      [] (files_list short_pages (RNode i n mt mo b ks))"
  by pat_completeness auto
termination
proof (relation "measure (\<lambda>(s, n, p). size n)")
  show "wf (measure (\<lambda>(s, n, p). size n))" by simp
next
  fix short_pages i n mt mo b ks path files_dict item
  assume "item \<in> set (files_list short_pages (RNode i n mt mo b ks))"
  then have "item \<in> set ks"
    by (auto simp: files_list_def dest: in_set_takeD)
  then have "size item < Suc (size_list size ks)"
    by (induction ks) auto
  then show "((short_pages, item, child_path path (rname item)),
        (short_pages, RNode i n mt mo b ks, path)) \<in> measure (\<lambda>(s, n, p). size n)"
    by simp
qed

text \<open>Looking an object up by its identifier, and the three ways the tree changes.\<close>

fun find_node :: "string \<Rightarrow> rnode \<Rightarrow> rnode option"
  and find_in :: "string \<Rightarrow> rnode list \<Rightarrow> rnode option" where
  "find_node fid (RNode i n mt mo b ks) =
     (if i = fid then Some (RNode i n mt mo b ks) else find_in fid ks)"
| "find_in fid [] = None"
| "find_in fid (k # ks) =
     (case find_node fid k of Some r \<Rightarrow> Some r | None \<Rightarrow> find_in fid ks)"

fun add_kid :: "string \<Rightarrow> rnode \<Rightarrow> rnode \<Rightarrow> rnode" where
  "add_kid pid new (RNode i n mt mo b ks) =
     (if i = pid then RNode i n mt mo b (ks @ [new])
      else RNode i n mt mo b (map (add_kid pid new) ks))"

fun put_bytes :: "string \<Rightarrow> string \<Rightarrow> string \<Rightarrow> rnode \<Rightarrow> rnode" where
  "put_bytes fid bytes t (RNode i n mt mo b ks) =
     (if i = fid then RNode i n mt t bytes ks
      else RNode i n mt mo b (map (put_bytes fid bytes t) ks))"

fun remove_node :: "string \<Rightarrow> rnode \<Rightarrow> rnode" where
  "remove_node fid (RNode i n mt mo b ks) =
     RNode i n mt mo b (map (remove_node fid) (filter (\<lambda>k. rid k \<noteq> fid) ks))"

text \<open>The identifier the service gives to its \<open>k\<close>-th new object.\<close>

definition fresh_id :: "nat \<Rightarrow> string" where
  "fresh_id k = ''new-'' @ replicate k (CHR ''i'')"

definition UPLOAD_MIME :: string where
  "UPLOAD_MIME = ''text/markdown''"

section \<open>The world a run acts on\<close>

text \<open>
  Calls that act on the vault or on the remote store are recorded in a trace, in the
  order the scripts issue them.
\<close>

datatype event = Upload string | Download string | DeleteRemote string | DeleteLocal string

record world =
  service_available :: bool
  vault :: fsnode
  checksum_file :: "manifest option"
  drive :: rnode
  short_pages :: "(string, nat) dict"
  next_id :: nat
  now :: string
  trace :: "event list"

text \<open>
  \<open>get_google_drive_service()\<close> prints an error and returns \<open>None\<close> when the client
  libraries cannot be imported or \<open>credentials.json\<close> is missing;
  \<open>service_available\<close> says that neither is the case.
\<close>

definition get_google_drive_service :: "world \<Rightarrow> unit option" where
  "get_google_drive_service w = (if service_available w then Some () else None)"

definition load_checksums :: "world \<Rightarrow> manifest" where
  "load_checksums w = (case checksum_file w of None \<Rightarrow> [] | Some m \<Rightarrow> m)"

definition save_checksums :: "world \<Rightarrow> manifest \<Rightarrow> world" where
  "save_checksums w checksums = w\<lparr>checksum_file := Some checksums\<rparr>"

text \<open>\<open>Path(p).name\<close>: the last component, empty for the empty path.\<close>

definition path_name :: "string list \<Rightarrow> string" where
  "path_name parts = (if parts = [] then [] else last parts)"

text \<open>Python's truth value of \<open>d.get('drive_id')\<close>: false for \<open>None\<close> and for \<open>""\<close>.\<close>

fun truthy :: "string option \<Rightarrow> bool" where
  "truthy None = False"
| "truthy (Some s) = (s \<noteq> [])"

definition get_drive_file_id :: "world \<Rightarrow> string \<Rightarrow> string \<Rightarrow> string option" where
  "get_drive_file_id w filename parent_folder_id =
     (case find_node parent_folder_id (drive w) of
        None \<Rightarrow> None
      | Some p \<Rightarrow>
          (case filter (\<lambda>k. rname k = filename) (rkids p) of
             [] \<Rightarrow> None
           | k # _ \<Rightarrow> Some (rid k)))"

definition get_or_create_folder :: "world \<Rightarrow> string \<Rightarrow> string \<Rightarrow> exn + (string \<times> world)" where
  "get_or_create_folder w folder_name parent_folder_id =
     (case find_node parent_folder_id (drive w) of
        None \<Rightarrow> Inl HttpError
      | Some p \<Rightarrow>
          (case filter (\<lambda>k. rname k = folder_name \<and> rmime k = FOLDER_MIME) (rkids p) of
             k # _ \<Rightarrow> Inr (rid k, w)
           | [] \<Rightarrow>
               Inr (fresh_id (next_id w),
                    w\<lparr>drive := add_kid parent_folder_id
                         (RNode (fresh_id (next_id w)) folder_name FOLDER_MIME (now w) [] [])
                         (drive w),
                      next_id := Suc (next_id w)\<rparr>)))"

text \<open>
  \<open>upload_to_drive(service, file_path, parent_folder_id, file_id)\<close>: with a file id the
  object of that id is updated (an unknown id is answered with an error), without one a
  new object is created under the parent.
\<close>

definition upload_to_drive ::
  "world \<Rightarrow> string list \<Rightarrow> string \<Rightarrow> string option \<Rightarrow> exn + (string \<times> world)" where
  "upload_to_drive w parts parent_folder_id file_id =
     (case fs_lookup (vault w) parts of
        None \<Rightarrow> Inl FileNotFoundError
      | Some (Dir es) \<Rightarrow> Inl IsADirectoryError
      | Some (File b m) \<Rightarrow>
          (case file_id of
             Some fid \<Rightarrow>
               (if fid \<noteq> [] then
                  (case find_node fid (drive w) of
                     None \<Rightarrow> Inl HttpError
                   | Some r \<Rightarrow> Inr (fid, w\<lparr>drive := put_bytes fid b (now w) (drive w)\<rparr>))
                else
                  (case find_node parent_folder_id (drive w) of
                     None \<Rightarrow> Inl HttpError
                   | Some r \<Rightarrow>
                       Inr (fresh_id (next_id w),
                            w\<lparr>drive := add_kid parent_folder_id
                                 (RNode (fresh_id (next_id w)) (path_name parts) UPLOAD_MIME (now w) b [])
                                 (drive w),
                              next_id := Suc (next_id w)\<rparr>)))
           | None \<Rightarrow>
               (case find_node parent_folder_id (drive w) of
                  None \<Rightarrow> Inl HttpError
                | Some r \<Rightarrow>
                    Inr (fresh_id (next_id w),
                         w\<lparr>drive := add_kid parent_folder_id
                              (RNode (fresh_id (next_id w)) (path_name parts) UPLOAD_MIME (now w) b [])
                              (drive w),
                           next_id := Suc (next_id w)\<rparr>))))"

definition delete_from_drive :: "world \<Rightarrow> string \<Rightarrow> exn + world" where
  "delete_from_drive w file_id =
     (case find_node file_id (drive w) of
        None \<Rightarrow> Inl HttpError
      | Some r \<Rightarrow> Inr (w\<lparr>drive := remove_node file_id (drive w)\<rparr>))"

definition log_event :: "world \<Rightarrow> event \<Rightarrow> world" where
  "log_event w e = w\<lparr>trace := trace w @ [e]\<rparr>"

section \<open>Push: \<open>push2Google.py\<close>\<close>

text \<open>
  The first loop of \<open>sync_to_google_drive\<close>: every scanned note gets a fresh entry in
  \<open>new_checksums\<close>, which carries the old entry's \<open>drive_id\<close> and nothing else of it,
  and is classified as new or modified. Hashing a path that is not a readable file
  raises, outside any \<open>try\<close>.
\<close>

fun scan_notes ::
  "(string \<Rightarrow> string) \<Rightarrow> fsnode \<Rightarrow> manifest \<Rightarrow> string list list \<Rightarrow>
   manifest \<times> string list \<times> string list \<Rightarrow> exn + (manifest \<times> string list \<times> string list)" where
  "scan_notes H v old_checksums [] acc = Inr acc"
| "scan_notes H v old_checksums (note # notes) (new_checksums, new_files, modified_files) =
     (let rel_path_str = join_path note in
      case calculate_checksum H v note of
        Inl e \<Rightarrow> Inl e
      | Inr cs \<Rightarrow>
          (case stat_mtime v note of
             Inl e \<Rightarrow> Inl e
           | Inr mt \<Rightarrow>
               (let new_checksums' = dict_set new_checksums rel_path_str
                      \<lparr>checksum = cs, modified = mt,
                       drive_id = (case dict_get old_checksums rel_path_str of
                                     None \<Rightarrow> None | Some e \<Rightarrow> drive_id e),
                       drive_modified = None\<rparr>
                in case dict_get old_checksums rel_path_str of
                     None \<Rightarrow>
                       scan_notes H v old_checksums notes
                         (new_checksums', new_files @ [rel_path_str], modified_files)
                   | Some e \<Rightarrow>
                       if checksum e \<noteq> cs then
                         scan_notes H v old_checksums notes
                           (new_checksums', new_files, modified_files @ [rel_path_str])
                       else
                         scan_notes H v old_checksums notes
                           (new_checksums', new_files, modified_files))))"

text \<open>
  The classification of a push run: the new manifest and the lists of new, modified
  and deleted paths.
\<close>

definition classify_push ::
  "(string \<Rightarrow> string) \<Rightarrow> fsnode \<Rightarrow> manifest \<Rightarrow>
   exn + (manifest \<times> string list \<times> string list \<times> string list)" where
  "classify_push H v old_checksums =
     (case scan_notes H v old_checksums (get_all_notes v) ([], [], []) of
        Inl e \<Rightarrow> Inl e
      | Inr (new_checksums, new_files, modified_files) \<Rightarrow>
          Inr (new_checksums, new_files, modified_files,
               filter (\<lambda>old_file. old_file \<notin> set (dict_keys new_checksums))
                 (dict_keys old_checksums)))"

text \<open>The folder chain of one file, created lazily and remembered in \<open>folder_cache\<close>.\<close>

fun resolve_folders ::
  "world \<Rightarrow> (string, string) dict \<Rightarrow> string list \<Rightarrow> string list \<Rightarrow> string \<Rightarrow>
   exn option \<times> world \<times> (string, string) dict \<times> string" where
  "resolve_folders w folder_cache seen [] parent_id = (None, w, folder_cache, parent_id)"
| "resolve_folders w folder_cache seen (folder_name # rest) parent_id =
     (let folder_key = join_path (seen @ [folder_name]) in
      case dict_get folder_cache folder_key of
        Some fid \<Rightarrow> resolve_folders w folder_cache (seen @ [folder_name]) rest fid
      | None \<Rightarrow>
          (case get_or_create_folder w folder_name parent_id of
             Inl e \<Rightarrow> (Some e, w, folder_cache, parent_id)
           | Inr (fid, w') \<Rightarrow>
               resolve_folders w' (dict_set folder_cache folder_key fid)
                 (seen @ [folder_name]) rest fid))"

text \<open>
  The upload loop over \<open>new_files + modified_files\<close>. Nothing in it is inside a
  \<open>try\<close>: the first exception ends the loop and the run.
\<close>

fun upload_files ::
  "world \<Rightarrow> manifest \<Rightarrow> (string, string) dict \<Rightarrow> string list \<Rightarrow>
   exn option \<times> world \<times> manifest" where
  "upload_files w new_checksums folder_cache [] = (None, w, new_checksums)"
| "upload_files w new_checksums folder_cache (file_path_str # rest) =
     (let parts = path_parts file_path_str in
      case resolve_folders w folder_cache [] (butlast parts) DRIVE_FOLDER_ID of
        (Some e, w1, folder_cache1, parent_id) \<Rightarrow> (Some e, w1, new_checksums)
      | (None, w1, folder_cache1, parent_id) \<Rightarrow>
          (case dict_get new_checksums file_path_str of
             None \<Rightarrow> (Some KeyError, w1, new_checksums)
           | Some ent \<Rightarrow>
               (let file_id = (if truthy (drive_id ent) then drive_id ent
                               else get_drive_file_id w1 (path_name parts) parent_id);
                    w2 = log_event w1 (Upload file_path_str)
                in case upload_to_drive w2 parts parent_id file_id of
                     Inl e \<Rightarrow> (Some e, w2, new_checksums)
                   | Inr (did, w3) \<Rightarrow>
                       upload_files w3
                         (dict_set new_checksums file_path_str (ent\<lparr>drive_id := Some did\<rparr>))
                         folder_cache1 rest)))"

text \<open>
  The deletion loop: a remote delete is issued only for an old entry with a
  \<open>drive_id\<close>, and a failing delete is caught.
\<close>

fun delete_files :: "world \<Rightarrow> manifest \<Rightarrow> string list \<Rightarrow> exn option \<times> world" where
  "delete_files w old_checksums [] = (None, w)"
| "delete_files w old_checksums (file_path_str # rest) =
     (case dict_get old_checksums file_path_str of
        None \<Rightarrow> (Some KeyError, w)
      | Some ent \<Rightarrow>
          (case drive_id ent of
             None \<Rightarrow> delete_files w old_checksums rest
           | Some did \<Rightarrow>
               if did = [] then delete_files w old_checksums rest
               else
                 (let w1 = log_event w (DeleteRemote file_path_str) in
                  case delete_from_drive w1 did of
                    Inl e \<Rightarrow> delete_files w1 old_checksums rest
                  | Inr w2 \<Rightarrow> delete_files w2 old_checksums rest)))"

text \<open>
  \<open>sync_to_google_drive()\<close>. The result is the uncaught exception, if any, and the
  world the run leaves behind.
\<close>

definition sync_to_google_drive :: "(string \<Rightarrow> string) \<Rightarrow> world \<Rightarrow> exn option \<times> world" where
  "sync_to_google_drive H w =
     (case get_google_drive_service w of
        None \<Rightarrow> (None, w)
      | Some service \<Rightarrow>
          (case classify_push H (vault w) (load_checksums w) of
             Inl e \<Rightarrow> (Some e, w)
           | Inr (new_checksums, new_files, modified_files, deleted_files) \<Rightarrow>
               if new_files = [] \<and> modified_files = [] \<and> deleted_files = [] then (None, w)
               else
                 (case upload_files w new_checksums [] (new_files @ modified_files) of
                    (Some e, w1, new_checksums1) \<Rightarrow> (Some e, w1)
                  | (None, w1, new_checksums1) \<Rightarrow>
                      (case delete_files w1 (load_checksums w) deleted_files of
                         (Some e, w2) \<Rightarrow> (Some e, w2)
                       | (None, w2) \<Rightarrow> (None, save_checksums w2 new_checksums1)))))"

text \<open>The \<open>--init\<close> mode of \<open>main\<close>: entries with a checksum and a time only.\<close>

fun init_entries ::
  "(string \<Rightarrow> string) \<Rightarrow> fsnode \<Rightarrow> string list list \<Rightarrow> manifest \<Rightarrow> exn + manifest" where
  "init_entries H v [] checksums = Inr checksums"
| "init_entries H v (note # notes) checksums =
     (case calculate_checksum H v note of
        Inl e \<Rightarrow> Inl e
      | Inr cs \<Rightarrow>
          (case stat_mtime v note of
             Inl e \<Rightarrow> Inl e
           | Inr mt \<Rightarrow>
               init_entries H v notes
                 (dict_set checksums (join_path note)
                    \<lparr>checksum = cs, modified = mt, drive_id = None, drive_modified = None\<rparr>)))"

datatype push_args = Setup | ShowStatus | Init | NoArgs

definition push_main :: "(string \<Rightarrow> string) \<Rightarrow> push_args \<Rightarrow> world \<Rightarrow> exn option \<times> world" where
  "push_main H args w =
     (case args of
        Setup \<Rightarrow> (None, w)
      | ShowStatus \<Rightarrow> (None, w)
      | Init \<Rightarrow>
          (case init_entries H (vault w) (get_all_notes (vault w)) [] of
             Inl e \<Rightarrow> (Some e, w)
           | Inr checksums \<Rightarrow> (None, save_checksums w checksums))
      | NoArgs \<Rightarrow> sync_to_google_drive H w)"

section \<open>Pull: \<open>pullFromGoogle.py\<close>\<close>

text \<open>
  The first loop of \<open>pull_from_google_drive\<close> over \<open>drive_files.items()\<close>: the chain
  of four tests that classifies a remote path as new, as modified, or not at all.
\<close>

fun scan_drive ::
  "fsnode \<Rightarrow> manifest \<Rightarrow> (string, drive_info) dict \<Rightarrow> string list \<times> string list \<Rightarrow>
   string list \<times> string list" where
  "scan_drive v local_checksums [] acc = acc"
| "scan_drive v local_checksums ((file_path, info) # rest) (new_files, modified_files) =
     (case dict_get local_checksums file_path of
        None \<Rightarrow> scan_drive v local_checksums rest (new_files @ [file_path], modified_files)
      | Some e \<Rightarrow>
          if drive_id e \<noteq> Some (info_id info) then
            scan_drive v local_checksums rest (new_files, modified_files @ [file_path])
          else if drive_modified e \<noteq> Some (info_modified info) then
            scan_drive v local_checksums rest (new_files, modified_files @ [file_path])
          else if \<not> path_exists v file_path then
            scan_drive v local_checksums rest (new_files @ [file_path], modified_files)
          else scan_drive v local_checksums rest (new_files, modified_files))"

text \<open>The classification of a pull run: new, modified and deleted paths.\<close>

definition classify_pull ::
  "fsnode \<Rightarrow> manifest \<Rightarrow> (string, drive_info) dict \<Rightarrow>
   string list \<times> string list \<times> string list" where
  "classify_pull v local_checksums drive_files =
     (case scan_drive v local_checksums drive_files ([], []) of
        (new_files, modified_files) \<Rightarrow>
          (new_files, modified_files,
           filter (\<lambda>file_path. file_path \<notin> set (dict_keys drive_files))
             (dict_keys local_checksums)))"

text \<open>
  \<open>download_file(service, file_id, local_path)\<close>: the parent directories of the local
  path are created, the bytes of the remote object are fetched, and they are written to
  the local path. The result is the exception, if any, and the world at that point.
\<close>

definition download_file :: "world \<Rightarrow> string \<Rightarrow> string list \<Rightarrow> exn option \<times> world" where
  "download_file w file_id parts =
     (case mkdir_parents (vault w) (butlast parts) of
        Inl e \<Rightarrow> (Some e, w)
      | Inr v1 \<Rightarrow>
          (case find_node file_id (drive w) of
             None \<Rightarrow> (Some HttpError, w\<lparr>vault := v1\<rparr>)
           | Some r \<Rightarrow>
               (case write_file v1 parts (rbytes r) (now w) of
                  Inl e \<Rightarrow> (Some e, w\<lparr>vault := v1\<rparr>)
                | Inr v2 \<Rightarrow> (None, w\<lparr>vault := v2\<rparr>))))"

text \<open>
  The body of the \<open>try\<close> of the download loop: download, hash the local file, and
  write the whole manifest entry. An exception leaves the manifest as it was.
\<close>

definition download_one ::
  "(string \<Rightarrow> string) \<Rightarrow> world \<Rightarrow> manifest \<Rightarrow> string \<Rightarrow> drive_info \<Rightarrow>
   exn option \<times> world \<times> manifest" where
  "download_one H w local_checksums file_path info =
     (case download_file w (info_id info) (path_parts file_path) of
        (Some e, w') \<Rightarrow> (Some e, w', local_checksums)
      | (None, w') \<Rightarrow>
          (case calculate_checksum H (vault w') (path_parts file_path) of
             Inl e \<Rightarrow> (Some e, w', local_checksums)
           | Inr cs \<Rightarrow>
               (case stat_mtime (vault w') (path_parts file_path) of
                  Inl e \<Rightarrow> (Some e, w', local_checksums)
                | Inr mt \<Rightarrow>
                    (None, w', dict_set local_checksums file_path
                           \<lparr>checksum = cs, modified = mt,
                            drive_id = Some (info_id info),
                            drive_modified = Some (info_modified info)\<rparr>))))"

text \<open>
  The download loop over \<open>new_files + modified_files\<close>. The lookup in \<open>drive_files\<close>
  is outside the \<open>try\<close>; an exception inside it is caught and the loop goes on with
  the next path.
\<close>

fun download_files ::
  "(string \<Rightarrow> string) \<Rightarrow> world \<Rightarrow> manifest \<Rightarrow> (string, drive_info) dict \<Rightarrow> string list \<Rightarrow>
   exn option \<times> world \<times> manifest" where
  "download_files H w local_checksums drive_files [] = (None, w, local_checksums)"
| "download_files H w local_checksums drive_files (file_path # rest) =
     (case dict_get drive_files file_path of
        None \<Rightarrow> (Some KeyError, w, local_checksums)
      | Some info \<Rightarrow>
          (case download_one H (log_event w (Download file_path)) local_checksums file_path info of
             (caught, w2, local_checksums') \<Rightarrow>
               download_files H w2 local_checksums' drive_files rest))"

text \<open>
  The local deletion loop: the file is unlinked if it exists and the manifest entry is
  deleted; an exception from \<open>unlink\<close> skips the \<open>del\<close>.
\<close>

fun delete_local_files :: "world \<Rightarrow> manifest \<Rightarrow> string list \<Rightarrow> world \<times> manifest" where
  "delete_local_files w local_checksums [] = (w, local_checksums)"
| "delete_local_files w local_checksums (file_path # rest) =
     (if path_exists (vault w) file_path then
        (let w1 = log_event w (DeleteLocal file_path) in
         case unlink (vault w1) (path_parts file_path) of
           Inl e \<Rightarrow> delete_local_files w1 local_checksums rest
         | Inr v' \<Rightarrow>
             delete_local_files (w1\<lparr>vault := v'\<rparr>) (dict_del local_checksums file_path) rest)
      else delete_local_files w (dict_del local_checksums file_path) rest)"

text \<open>\<open>pull_from_google_drive(dry_run)\<close>.\<close>

definition pull_from_google_drive ::
  "(string \<Rightarrow> string) \<Rightarrow> bool \<Rightarrow> world \<Rightarrow> exn option \<times> world" where
  "pull_from_google_drive H dry_run w =
     (case get_google_drive_service w of
        None \<Rightarrow> (None, w)
      | Some service \<Rightarrow>
          (let drive_files = list_drive_files (short_pages w) (drive w) [];
               local_checksums = load_checksums w
           in case classify_pull (vault w) local_checksums drive_files of
                (new_files, modified_files, deleted_files) \<Rightarrow>
                  if new_files = [] \<and> modified_files = [] \<and> deleted_files = [] then (None, w)
                  else if dry_run then (None, w)
                  else
                    (case download_files H w local_checksums drive_files
                            (new_files @ modified_files) of
                       (Some e, w1, local_checksums1) \<Rightarrow> (Some e, w1)
                     | (None, w1, local_checksums1) \<Rightarrow>
                         (case delete_local_files w1 local_checksums1 deleted_files of
                            (w2, local_checksums2) \<Rightarrow>
                              (let w3 = (if deleted_files \<noteq> []
                                         then w2\<lparr>vault := cleanup_empty_folders (vault w2)\<rparr>
                                         else w2)
                               in (None, save_checksums w3 local_checksums2))))))"

section \<open>The orchestrator: \<open>sync.py\<close>\<close>

text \<open>
  A script that returns from \<open>main\<close> exits with status 0; an uncaught exception ends it
  with status 1. Neither script calls \<open>sys.exit\<close>.
\<close>

definition exit_status :: "exn option \<Rightarrow> nat" where
  "exit_status r = (case r of None \<Rightarrow> 0 | Some e \<Rightarrow> 1)"

text \<open>\<open>run_script\<close>: the script's success is \<open>returncode == 0\<close>.\<close>

definition run_script :: "(world \<Rightarrow> exn option \<times> world) \<Rightarrow> world \<Rightarrow> bool \<times> world" where
  "run_script script w = (case script w of (r, w') \<Rightarrow> (exit_status r = 0, w'))"

text \<open>\<open>sync.py\<close>'s \<open>main\<close>: the exit status of the whole run and the world it leaves.\<close>

definition sync_main :: "(string \<Rightarrow> string) \<Rightarrow> bool \<Rightarrow> world \<Rightarrow> nat \<times> world" where
  "sync_main H dry_run w =
     (case run_script (pull_from_google_drive H dry_run) w of
        (False, w1) \<Rightarrow> (1, w1)
      | (True, w1) \<Rightarrow>
          if \<not> dry_run then
            (case run_script (push_main H NoArgs) w1 of
               (False, w2) \<Rightarrow> (1, w2)
             | (True, w2) \<Rightarrow> (0, w2))
          else (0, w1))"

section \<open>The remote tree, listed in full\<close>

text \<open>
  What the scanner is specified to return: every file below the folder whose name has a
  recognized extension, under its full relative path, in listing order -- whatever the
  number of children of a folder.
\<close>

fun descendant_files :: "rnode \<Rightarrow> string \<Rightarrow> (string \<times> drive_info) list" where
  "descendant_files (RNode i n mt mo b ks) path =
     concat (map (\<lambda>item.
        if rmime item = FOLDER_MIME then descendant_files item (child_path path (rname item))
        else if recognized (rname item) then
          [(child_path path (rname item), \<lparr>info_id = rid item, info_modified = rmodified item\<rparr>)]
        else []) ks)"


section \<open>Example inputs\<close>

text \<open>
  A folder with 1001 children: a thousand files of an unrecognized kind, listed first,
  and the note \<open>b.md\<close>.
\<close>

definition pad_item :: "nat \<Rightarrow> rnode" where
  "pad_item k = RNode (fresh_id k) ''pad.bin'' ''application/octet-stream'' ''t'' [] []"

definition crowded_folder :: rnode where
  "crowded_folder =
     RNode DRIVE_FOLDER_ID ''vault'' FOLDER_MIME ''t'' []
       (map pad_item [0..<1000] @ [RNode ''B'' ''b.md'' UPLOAD_MIME ''t'' ''x'' []])"


text \<open>
  A world for a push run: one new note in the vault, and a manifest entry for a note
  that is gone from the vault and has a remote object.
\<close>

definition push_world :: world where
  "push_world =
     \<lparr>service_available = True,
      vault = Dir [(''b.md'', File ''new'' ''m'')],
      checksum_file = Some [(''old.md'', \<lparr>checksum = ''o'', modified = ''m0'',
                                         drive_id = Some ''R0'', drive_modified = None\<rparr>)],
      drive = RNode DRIVE_FOLDER_ID ''vault'' FOLDER_MIME ''t'' []
                [RNode ''R0'' ''old.md'' UPLOAD_MIME ''t'' ''o'' []],
      short_pages = [], next_id = 0, now = ''t1'', trace = []\<rparr>"

text \<open>
  A world for a pull run: one remote note that the manifest does not know, and a tracked
  local note that is gone from the remote folder.
\<close>

definition pull_world :: world where
  "pull_world =
     \<lparr>service_available = True,
      vault = Dir [(''gone.md'', File ''g'' ''m'')],
      checksum_file = Some [(''gone.md'', \<lparr>checksum = ''g'', modified = ''m'',
                                          drive_id = Some ''R9'', drive_modified = Some ''t''\<rparr>)],
      drive = RNode DRIVE_FOLDER_ID ''vault'' FOLDER_MIME ''t'' []
                [RNode ''R1'' ''c.md'' UPLOAD_MIME ''t'' ''c'' []],
      short_pages = [], next_id = 0, now = ''t1'', trace = []\<rparr>"

text \<open>
  A world as \<open>--init\<close> leaves it (entries without a remote id), after \<open>gone.md\<close> has
  been removed from the vault; the remote folder holds a copy of both notes.
\<close>

definition init_world :: world where
  "init_world =
     \<lparr>service_available = True,
      vault = Dir [(''a.md'', File ''A'' ''m'')],
      checksum_file = Some [(''a.md'', \<lparr>checksum = ''A'', modified = ''m'',
                                       drive_id = None, drive_modified = None\<rparr>),
                            (''gone.md'', \<lparr>checksum = ''G'', modified = ''m'',
                                          drive_id = None, drive_modified = None\<rparr>)],
      drive = RNode DRIVE_FOLDER_ID ''vault'' FOLDER_MIME ''t'' []
                [RNode ''R1'' ''a.md'' UPLOAD_MIME ''t'' ''A'' [],
                 RNode ''R2'' ''gone.md'' UPLOAD_MIME ''t'' ''G'' []],
      short_pages = [], next_id = 0, now = ''t1'', trace = []\<rparr>"

text \<open>
  The scenario of the first run: the vault holds \<open>notes/a.md\<close> only, there is no
  manifest, and the remote folder is empty.
\<close>

definition first_world :: world where
  "first_world =
     \<lparr>service_available = True,
      vault = Dir [(''notes'', Dir [(''a.md'', File ''hello'' ''m'')])],
      checksum_file = None,
      drive = RNode DRIVE_FOLDER_ID ''vault'' FOLDER_MIME ''t'' [] [],
      short_pages = [], next_id = 0, now = ''t1'', trace = []\<rparr>"

text \<open>
  Two notes changed locally since the last run, and a third one removed; the remote object
  the manifest records for \<open>a.md\<close> no longer exists, those of \<open>c.md\<close> and \<open>d.md\<close>
  do.
\<close>

definition stale_world :: world where
  "stale_world =
     \<lparr>service_available = True,
      vault = Dir [(''a.md'', File ''a2'' ''m2''), (''c.md'', File ''c2'' ''m2'')],
      checksum_file = Some [(''a.md'', \<lparr>checksum = ''a1'', modified = ''m1'',
                                       drive_id = Some ''RA'', drive_modified = None\<rparr>),
                            (''c.md'', \<lparr>checksum = ''c1'', modified = ''m1'',
                                       drive_id = Some ''RC'', drive_modified = None\<rparr>),
                            (''d.md'', \<lparr>checksum = ''d1'', modified = ''m1'',
                                       drive_id = Some ''RD'', drive_modified = None\<rparr>)],
      drive = RNode DRIVE_FOLDER_ID ''vault'' FOLDER_MIME ''t'' []
                [RNode ''RC'' ''c.md'' UPLOAD_MIME ''t'' ''c1'' [],
                 RNode ''RD'' ''d.md'' UPLOAD_MIME ''t'' ''d1'' []],
      short_pages = [], next_id = 0, now = ''t1'', trace = []\<rparr>"

text \<open>
  One note removed locally whose recorded remote object no longer exists, so that the
  remote delete fails.
\<close>

definition stale_delete_world :: world where
  "stale_delete_world =
     \<lparr>service_available = True,
      vault = Dir [],
      checksum_file = Some [(''d.md'', \<lparr>checksum = ''d1'', modified = ''m1'',
                                       drive_id = Some ''RD'', drive_modified = None\<rparr>)],
      drive = RNode DRIVE_FOLDER_ID ''vault'' FOLDER_MIME ''t'' [] [],
      short_pages = [], next_id = 0, now = ''t1'', trace = []\<rparr>"

text \<open>The world of \<open>push_world\<close> without credentials.\<close>

definition offline_world :: world where
  "offline_world = push_world\<lparr>service_available := False\<rparr>"

text \<open>
  Nothing in the vault and no manifest; the remote folder holds one image,
  \<open>img/photo.png\<close>.
\<close>

definition image_world :: world where
  "image_world =
     \<lparr>service_available = True,
      vault = Dir [],
      checksum_file = None,
      drive = RNode DRIVE_FOLDER_ID ''vault'' FOLDER_MIME ''t'' []
                [RNode ''F1'' ''img'' FOLDER_MIME ''t'' []
                   [RNode ''R1'' ''photo.png'' ''image/png'' ''t'' ''png'' []]],
      short_pages = [], next_id = 0, now = ''t1'', trace = []\<rparr>"

text \<open>
  The note \<open>b.md\<close> is in the vault, tracked by the manifest, and the last of the 1001
  children of the remote folder.
\<close>

definition crowded_world :: world where
  "crowded_world =
     \<lparr>service_available = True,
      vault = Dir [(''b.md'', File ''x'' ''m'')],
      checksum_file = Some [(''b.md'', \<lparr>checksum = ''x'', modified = ''m'',
                                       drive_id = Some ''B'', drive_modified = Some ''t''\<rparr>)],
      drive = crowded_folder,
      short_pages = [], next_id = 0, now = ''t1'', trace = []\<rparr>"


section \<open>Kinds of trace events\<close>

fun is_transfer :: "event \<Rightarrow> bool" where
  "is_transfer (Upload p) = True"
| "is_transfer (Download p) = True"
| "is_transfer (DeleteRemote p) = False"
| "is_transfer (DeleteLocal p) = False"

fun is_deletion :: "event \<Rightarrow> bool" where
  "is_deletion (Upload p) = False"
| "is_deletion (Download p) = False"
| "is_deletion (DeleteRemote p) = True"
| "is_deletion (DeleteLocal p) = True"

section \<open>Facts about dictionaries\<close>


lemma keys_dict_set: "set (dict_keys (dict_set d k v)) = insert k (set (dict_keys d))"
  by (induction d) (auto simp: dict_keys_def)


lemma dict_get_None_iff: "dict_get d k = None \<longleftrightarrow> k \<notin> set (dict_keys d)"
  by (simp add: dict_get_def dict_keys_def map_of_eq_None_iff)


lemma keys_dict_update: "set (dict_keys (dict_update d e)) = set (dict_keys d) \<union> fst ` set e"
proof (induction e arbitrary: d)
  case Nil
  then show ?case by simp
next
  case (Cons p e)
  obtain a b where p: "p = (a, b)" by (cases p)
  show ?case by (simp add: p Cons keys_dict_set)
qed


section \<open>The pull classification\<close>

lemma scan_drive_mono:
  "scan_drive v lc items (nf, mf) = (nf', mf') \<Longrightarrow> set nf \<subseteq> set nf' \<and> set mf \<subseteq> set mf'"
proof (induction items arbitrary: nf mf)
  case Nil
  then show ?case by simp
next
  case (Cons it items)
  obtain p info where it: "it = (p, info)" by (cases it)
  from Cons.prems show ?case
    unfolding it
    by (auto split: option.splits if_splits dest!: Cons.IH)
qed

lemma scan_drive_missing:
  assumes "p \<in> fst ` set items" "p \<in> set (dict_keys lc)" "\<not> path_exists v p"
    and "scan_drive v lc items (nf, mf) = (nf', mf')"
  shows "p \<in> set nf' \<union> set mf'"
  using assms
proof (induction items arbitrary: nf mf)
  case Nil
  then show ?case by simp
next
  case (Cons it items)
  obtain q info where it: "it = (q, info)" by (cases it)
  show ?case
  proof (cases "q = p")
    case True
    from Cons.prems(2) obtain e where e: "dict_get lc p = Some e"
      by (cases "dict_get lc p") (auto simp: dict_get_None_iff)
    from Cons.prems(4) Cons.prems(3) show ?thesis
      unfolding it True
      by (auto simp: e split: if_splits dest!: scan_drive_mono)
  next
    case False
    with Cons.prems(1) have "p \<in> fst ` set items" by (auto simp: it)
    from Cons.prems(4) Cons.IH[OF this Cons.prems(2,3)] show ?thesis
      unfolding it
      by (auto split: option.splits if_splits)
  qed
qed

text \<open>
  Claim C7. In the pull direction, a path that the remote scan lists and the manifest
  tracks, and whose local file is absent, is classified for download (as new or as
  modified) and is not classified as deleted.
\<close>

theorem pull_redownloads_missing_local:
  assumes "file_path \<in> set (dict_keys drive_files)"
    and "file_path \<in> set (dict_keys local_checksums)"
    and "\<not> path_exists v file_path"
    and "classify_pull v local_checksums drive_files = (new_files, modified_files, deleted_files)"
  shows "file_path \<in> set (new_files @ modified_files) \<and> file_path \<notin> set deleted_files"
proof -
  obtain nf mf where s: "scan_drive v local_checksums drive_files ([], []) = (nf, mf)"
    by (cases "scan_drive v local_checksums drive_files ([], [])")
  from assms(4) s have eq: "new_files = nf" "modified_files = mf"
    "deleted_files = filter (\<lambda>p. p \<notin> set (dict_keys drive_files)) (dict_keys local_checksums)"
    by (auto simp: classify_pull_def)
  from assms(1) have "file_path \<in> fst ` set drive_files" by (simp add: dict_keys_def)
  from scan_drive_missing[OF this assms(2,3) s] have "file_path \<in> set nf \<union> set mf" .
  with eq assms(1) show ?thesis by auto
qed

theorem pull_redownloads_missing_local_witness:
  "classify_pull (Dir [])
     [(''a.md'', \<lparr>checksum = ''h'', modified = ''m'', drive_id = Some ''R1'',
                  drive_modified = Some ''t''\<rparr>)]
     [(''a.md'', \<lparr>info_id = ''R1'', info_modified = ''t''\<rparr>)] = ([''a.md''], [], [])
   \<and> ''a.md'' \<in> set ([''a.md''] @ []) \<and> ''a.md'' \<notin> set ([] :: string list)"
proof -
  let ?lc = "[(''a.md'', \<lparr>checksum = ''h'', modified = ''m'', drive_id = Some ''R1'',
                         drive_modified = Some ''t''\<rparr>)]"
  let ?df = "[(''a.md'', \<lparr>info_id = ''R1'', info_modified = ''t''\<rparr>)]"
  have h1: "''a.md'' \<in> set (dict_keys ?df)" by (simp add: dict_keys_def)
  have h2: "''a.md'' \<in> set (dict_keys ?lc)" by (simp add: dict_keys_def)
  have h3: "\<not> path_exists (Dir []) ''a.md''" by code_simp
  have h4: "classify_pull (Dir []) ?lc ?df = ([''a.md''], [], [])" by code_simp
  from pull_redownloads_missing_local [OF h1 h2 h3 h4] h4 show ?thesis by simp
qed

section \<open>The compactor\<close>

lemma map_of_concat_single:
  assumes "distinct (map fst es)" and "\<And>e. fst ` set (g e) \<subseteq> {fst e}"
  shows "map_of (concat (map g es)) c =
     (case map_of es c of None \<Rightarrow> None | Some n \<Rightarrow> map_of (g (c, n)) c)"
  using assms(1)
proof (induction es)
  case Nil
  then show ?case by simp
next
  case (Cons e es)
  obtain a n where e: "e = (a, n)" by (cases e)
  show ?case
  proof (cases "a = c")
    case True
    with Cons.prems have "c \<notin> fst ` set es" by (simp add: e)
    then have none: "map_of es c = None" by (simp add: map_of_eq_None_iff)
    have "map_of (concat (map g es)) c = None"
      using Cons.IH Cons.prems by (simp add: none)
    then show ?thesis
      by (simp add: e True map_add_def split: option.splits)
  next
    case False
    have "c \<notin> fst ` set (g (a, n))"
      using assms(2)[of "(a, n)"] False by auto
    then have "map_of (g (a, n)) c = None" by (simp add: map_of_eq_None_iff)
    then show ?thesis
      using Cons.IH Cons.prems False by (simp add: e map_add_def)
  qed
qed

lemma lookup_empty_dir: "entries d = [] \<Longrightarrow> is_dir d \<Longrightarrow> cs \<noteq> [] \<Longrightarrow> fs_lookup d cs = None"
  by (cases d; cases cs) auto

lemma is_dir_cleanup: "is_dir (cleanup_empty_folders n) = is_dir n"
  by (cases n) auto

lemma lookup_through_file: "fs_lookup n cs = Some (Dir ds) \<Longrightarrow> cs \<noteq> [] \<Longrightarrow> is_dir n"
  by (cases n; cases cs) auto

lemma cleanup_lookup_step:
  assumes "distinct (map fst es)" "map_of es c = Some n"
  shows "fs_lookup (cleanup_empty_folders (Dir es)) (c # cs) =
     (if is_dir n then
        (if entries (cleanup_empty_folders n) = [] \<and> lower c \<notin> PRESERVE_FOLDERS then None
         else fs_lookup (cleanup_empty_folders n) cs)
      else fs_lookup n cs)"
proof -
  let ?g = "\<lambda>item. if is_dir (snd item) then
          (let d = cleanup_empty_folders (snd item)
           in if entries d = [] \<and> lower (fst item) \<notin> PRESERVE_FOLDERS then []
              else [(fst item, d)])
        else [item]"
  have names: "\<And>e. fst ` set (?g e) \<subseteq> {fst e}"
    by (auto simp: Let_def)
  have "map_of (concat (map ?g es)) c = map_of (?g (c, n)) c"
    using map_of_concat_single[of es ?g c, OF assms(1) names] by (simp only: assms(2) option.case)
  then show ?thesis
    by (simp add: Let_def)
qed


lemma compactor_lookup:
  assumes "wf_fs t" "p \<noteq> []" "fs_lookup t p = Some (Dir ds)"
  shows "fs_lookup (cleanup_empty_folders t) p =
     (if entries (cleanup_empty_folders (Dir ds)) = [] \<and> lower (last p) \<notin> PRESERVE_FOLDERS
      then None else Some (cleanup_empty_folders (Dir ds)))"
  using assms
proof (induction p arbitrary: t)
  case Nil
  then show ?case by simp
next
  case (Cons c cs)
  from Cons.prems(3) obtain es where t: "t = Dir es" by (cases t) auto
  from Cons.prems(3) obtain n where n: "map_of es c = Some n" and look: "fs_lookup n cs = Some (Dir ds)"
    by (auto simp: t split: option.splits)
  from Cons.prems(1) have dist: "distinct (map fst es)" by (simp add: t)
  from n have "(c, n) \<in> set es" by (rule map_of_SomeD)
  with Cons.prems(1) have wfn: "wf_fs n" by (auto simp: t)
  note step = cleanup_lookup_step[OF dist n, of cs]
  show ?case
  proof (cases "cs = []")
    case True
    with look have "n = Dir ds" by simp
    then show ?thesis
      unfolding t step by (simp add: True del: cleanup_empty_folders.simps)
  next
    case False
    from look False have dir: "is_dir n" by (rule lookup_through_file)
    have IH: "fs_lookup (cleanup_empty_folders n) cs =
     (if entries (cleanup_empty_folders (Dir ds)) = [] \<and> lower (last cs) \<notin> PRESERVE_FOLDERS
      then None else Some (cleanup_empty_folders (Dir ds)))"
      by (rule Cons.IH[OF wfn False look])
    have last: "last (c # cs) = last cs" using False by simp
    show ?thesis
    proof (cases "entries (cleanup_empty_folders n) = [] \<and> lower c \<notin> PRESERVE_FOLDERS")
      case True
      have "is_dir (cleanup_empty_folders n)" using dir by (simp only: is_dir_cleanup)
      with True False have gone: "fs_lookup (cleanup_empty_folders n) cs = None"
        by (intro lookup_empty_dir) simp_all
      have "fs_lookup (cleanup_empty_folders t) (c # cs) = None"
        unfolding t step using True dir by (simp del: cleanup_empty_folders.simps)
      with gone IH show ?thesis unfolding last by (simp del: cleanup_empty_folders.simps split: if_splits)
    next
      case False
      then have "fs_lookup (cleanup_empty_folders t) (c # cs) = fs_lookup (cleanup_empty_folders n) cs"
        unfolding t step using dir by (auto simp del: cleanup_empty_folders.simps)
      with IH show ?thesis unfolding last by (simp del: cleanup_empty_folders.simps)
    qed
  qed
qed

text \<open>
  Claim C9. The compactor works bottom-up and removes a directory below the vault root
  if and only if, once its own subdirectories have been compacted, it has no entries
  left and its lower-cased name is none of \<open>img\<close>, \<open>weekly\<close>, \<open>neovim\<close>; a
  directory that stays holds its compacted content.
\<close>

theorem compactor_removes_iff:
  assumes "wf_fs t" "p \<noteq> []" "fs_lookup t p = Some (Dir ds)"
  shows "(fs_lookup (cleanup_empty_folders t) p = None \<longleftrightarrow>
            entries (cleanup_empty_folders (Dir ds)) = [] \<and> lower (last p) \<notin> PRESERVE_FOLDERS)
       \<and> (fs_lookup (cleanup_empty_folders t) p \<noteq> None \<longrightarrow>
            fs_lookup (cleanup_empty_folders t) p = Some (cleanup_empty_folders (Dir ds)))"
  using compactor_lookup[OF assms] by (simp del: cleanup_empty_folders.simps split: if_splits)

theorem compactor_removes_iff_witness:
  "fs_lookup (cleanup_empty_folders
       (Dir [(''a'', Dir [(''b'', Dir [])]), (''Img'', Dir []), (''x.md'', File [] [])])) [''a''] = None
   \<and> entries (cleanup_empty_folders (Dir [(''b'', Dir [])])) = []
   \<and> lower (last [''a'']) \<notin> PRESERVE_FOLDERS"
proof -
  let ?t = "Dir [(''a'', Dir [(''b'', Dir [])]), (''Img'', Dir []), (''x.md'', File [] [])]"
  have h1: "wf_fs ?t" by simp
  have h2: "[''a''] \<noteq> ([] :: string list)" by simp
  have h3: "fs_lookup ?t [''a''] = Some (Dir [(''b'', Dir [])])" by simp
  have e: "entries (cleanup_empty_folders (Dir [(''b'', Dir [])])) = []"
    by (simp add: lower_def lower_char_def PRESERVE_FOLDERS_def)
  have l: "lower (last [''a'']) \<notin> PRESERVE_FOLDERS"
    by (simp add: lower_def lower_char_def PRESERVE_FOLDERS_def)
  from compactor_removes_iff [OF h1 h2 h3] e l show ?thesis by blast
qed

section \<open>The remote scanner\<close>







lemma page_length_le: "page_length sp fid \<le> 1000"
  by (simp add: page_length_def split: option.splits)

lemma pads_ignored:
  "foldl (\<lambda>files_dict item.
        if rmime item = FOLDER_MIME then
          dict_update files_dict (list_drive_files sp item (child_path path (rname item)))
        else if recognized (rname item) then
          dict_set files_dict (child_path path (rname item))
            \<lparr>info_id = rid item, info_modified = rmodified item\<rparr>
        else files_dict) d (map pad_item xs) = d"
  by (induction xs)
    (simp_all add: pad_item_def FOLDER_MIME_def recognized_def endswith_def)

lemma crowded_listing: "list_drive_files sp crowded_folder [] = []"
proof -
  have "page_length sp DRIVE_FOLDER_ID - 1000 = 0"
    using page_length_le[of sp DRIVE_FOLDER_ID] by simp
  then have page: "files_list sp crowded_folder =
      map pad_item (take (page_length sp DRIVE_FOLDER_ID) [0..<1000])"
    by (simp add: crowded_folder_def files_list_def take_map)
  show ?thesis
    using page unfolding crowded_folder_def
    by (simp only: list_drive_files.simps pads_ignored)
qed

text \<open>
  Claim C3 says that the scanner pages through the children of a folder until they are
  exhausted, so that the returned map holds every matching descendant. The code does
  otherwise: it reads the first page only. In a folder of 1001 children whose last child
  is the note \<open>b.md\<close>, the note is a matching descendant and the scanner returns the
  empty map, whatever the length of the page; the pull run that follows takes the
  tracked note for deleted from the remote folder and removes the local file and its
  manifest entry.
\<close>

theorem listing_truncates:
  "length (rkids crowded_folder) = 1001
   \<and> (''b.md'', \<lparr>info_id = ''B'', info_modified = ''t''\<rparr>) \<in> set (descendant_files crowded_folder [])
   \<and> (\<forall>sp. list_drive_files sp crowded_folder [] = [])
   \<and> pull_from_google_drive (\<lambda>b. b) False crowded_world =
       (None, crowded_world\<lparr>vault := Dir [], checksum_file := Some [],
                              trace := [DeleteLocal ''b.md'']\<rparr>)"
proof -
  have len: "length (rkids crowded_folder) = 1001"
    by (simp add: crowded_folder_def)
  have desc: "(''b.md'', \<lparr>info_id = ''B'', info_modified = ''t''\<rparr>) \<in> set (descendant_files crowded_folder [])"
    by (simp add: crowded_folder_def UPLOAD_MIME_def FOLDER_MIME_def recognized_def endswith_def
        child_path_def)
  have scan: "list_drive_files (short_pages crowded_world) (drive crowded_world) [] = []"
    by (simp add: crowded_world_def crowded_listing)
  have cls: "classify_pull (vault crowded_world) (load_checksums crowded_world) [] = ([], [], [''b.md''])"
    by (simp add: crowded_world_def classify_pull_def load_checksums_def dict_keys_def)
  have del: "delete_local_files crowded_world (load_checksums crowded_world) [''b.md'']
      = (crowded_world\<lparr>vault := Dir [], trace := [DeleteLocal ''b.md'']\<rparr>, [])"
    by (simp add: crowded_world_def load_checksums_def path_exists_def path_parts_def
        unlink_def log_event_def dict_del_def)
  have run: "pull_from_google_drive (\<lambda>b. b) False crowded_world =
       (None, crowded_world\<lparr>vault := Dir [], checksum_file := Some [],
                              trace := [DeleteLocal ''b.md'']\<rparr>)"
  proof -
    have sv: "get_google_drive_service crowded_world = Some ()"
      by (simp add: get_google_drive_service_def crowded_world_def)
    have "pull_from_google_drive (\<lambda>b. b) False crowded_world =
        (None, save_checksums
           ((crowded_world\<lparr>vault := Dir [], trace := [DeleteLocal ''b.md'']\<rparr>)
              \<lparr>vault := cleanup_empty_folders
                 (vault (crowded_world\<lparr>vault := Dir [], trace := [DeleteLocal ''b.md'']\<rparr>))\<rparr>) [])"
      unfolding pull_from_google_drive_def Let_def sv scan cls
      by (simp add: del del: delete_local_files.simps)
    then show ?thesis by (simp add: save_checksums_def crowded_world_def)
  qed
  from len desc crowded_listing run show ?thesis by simp
qed






section \<open>The local scanner and the push classification\<close>

lemma glob_md_iff:
  "wf_fs node \<Longrightarrow>
   ps \<in> set (glob_md pre node) \<longleftrightarrow>
     (\<exists>qs. ps = pre @ qs \<and> qs \<noteq> [] \<and> fs_lookup node qs \<noteq> None \<and> endswith (last qs) ''.md'')"
proof (induction pre node arbitrary: ps rule: glob_md.induct)
  case (1 pre b m)
  show ?case
  proof -
    have "fs_lookup (File b m) qs = None" if "qs \<noteq> []" for qs
      using that by (cases qs) auto
    then show ?thesis by auto
  qed
next
  case (2 pre es)
  from "2.prems" have dist: "distinct (map fst es)" and wfk: "\<And>e. e \<in> set es \<Longrightarrow> wf_fs (snd e)"
    by auto
  have IH: "ps \<in> set (glob_md (pre @ [fst e]) (snd e)) \<longleftrightarrow>
      (\<exists>qs. ps = (pre @ [fst e]) @ qs \<and> qs \<noteq> [] \<and> fs_lookup (snd e) qs \<noteq> None
            \<and> endswith (last qs) ''.md'')"
    if "e \<in> set es" for e ps
    using "2.IH"[OF that wfk[OF that]] .
  show ?case
  proof
    assume "ps \<in> set (glob_md pre (Dir es))"
    then consider (here) e where "e \<in> set es" "endswith (fst e) ''.md''" "ps = pre @ [fst e]"
      | (below) e where "e \<in> set es" "ps \<in> set (glob_md (pre @ [fst e]) (snd e))"
      by auto
    then show "\<exists>qs. ps = pre @ qs \<and> qs \<noteq> [] \<and> fs_lookup (Dir es) qs \<noteq> None \<and> endswith (last qs) ''.md''"
    proof cases
      case here
      from here(1) dist have "map_of es (fst e) = Some (snd e)" by simp
      then have "fs_lookup (Dir es) [fst e] \<noteq> None" by simp
      with here show ?thesis by (intro exI[of _ "[fst e]"]) simp
    next
      case below
      from below(1) dist have m: "map_of es (fst e) = Some (snd e)" by simp
      from IH[OF below(1)] below(2) obtain qs where qs: "ps = (pre @ [fst e]) @ qs" "qs \<noteq> []"
        "fs_lookup (snd e) qs \<noteq> None" "endswith (last qs) ''.md''" by blast
      then show ?thesis
        by (intro exI[of _ "fst e # qs"]) (simp add: m)
    qed
  next
    assume "\<exists>qs. ps = pre @ qs \<and> qs \<noteq> [] \<and> fs_lookup (Dir es) qs \<noteq> None \<and> endswith (last qs) ''.md''"
    then obtain c cs where ps: "ps = pre @ c # cs" and look: "fs_lookup (Dir es) (c # cs) \<noteq> None"
      and ext: "endswith (last (c # cs)) ''.md''"
      by (metis list.exhaust)
    from look obtain n where n: "map_of es c = Some n" and lookn: "fs_lookup n cs \<noteq> None"
      by (auto split: option.splits)
    from n have mem: "(c, n) \<in> set es" by (rule map_of_SomeD)
    show "ps \<in> set (glob_md pre (Dir es))"
    proof (cases "cs = []")
      case True
      with ext mem ps show ?thesis by force
    next
      case False
      with ext have "endswith (last cs) ''.md''" by simp
      with IH[OF mem, of ps] ps False lookn have "ps \<in> set (glob_md (pre @ [c]) n)" by simp
      with mem show ?thesis by force
    qed
  qed
qed

lemma scan_notes_keys:
  "scan_notes H v old ns (nc, nf, mf) = Inr (nc', nf', mf') \<Longrightarrow>
   set (dict_keys nc') = set (dict_keys nc) \<union> join_path ` set ns"
proof (induction ns arbitrary: nc nf mf)
  case Nil
  then show ?case by simp
next
  case (Cons n ns)
  from Cons.prems show ?case
    by (auto simp: Let_def keys_dict_set split: sum.splits option.splits if_splits
        dest!: Cons.IH)
qed

text \<open>
  The local scanner of a push run enumerates exactly the paths below the vault root whose
  last component ends in \<open>.md\<close>, and such a path is not classified as deleted.
\<close>

lemma markdown_paths_scanned:
  assumes "wf_fs v"
  shows "(ps \<in> set (get_all_notes v) \<longleftrightarrow>
            ps \<noteq> [] \<and> fs_lookup v ps \<noteq> None \<and> endswith (last ps) ''.md'')
       \<and> (\<forall>new_checksums new_files modified_files deleted_files.
            classify_push H v old_checksums =
              Inr (new_checksums, new_files, modified_files, deleted_files) \<longrightarrow>
            ps \<in> set (get_all_notes v) \<longrightarrow> join_path ps \<notin> set deleted_files)"
proof -
  have a: "ps \<in> set (get_all_notes v) \<longleftrightarrow>
            ps \<noteq> [] \<and> fs_lookup v ps \<noteq> None \<and> endswith (last ps) ''.md''"
    using glob_md_iff[OF assms, of ps "[]"] by (simp add: get_all_notes_def)
  have b: "join_path ps \<notin> set df"
    if c: "classify_push H v old_checksums = Inr (nc, nf, mf, df)"
      and m: "ps \<in> set (get_all_notes v)" for nc nf mf df
  proof -
    from c obtain nc' nf' mf' where s: "scan_notes H v old_checksums (get_all_notes v) ([], [], []) = Inr (nc', nf', mf')"
      and df: "df = filter (\<lambda>old_file. old_file \<notin> set (dict_keys nc')) (dict_keys old_checksums)"
      by (auto simp: classify_push_def split: sum.splits)
    from scan_notes_keys[OF s] m have "join_path ps \<in> set (dict_keys nc')" by auto
    with df show ?thesis by simp
  qed
  from a b show ?thesis by blast
qed


text \<open>
  Claim C2 says that the local scanner of a push run enumerates exactly the regular
  files with a recognized extension (markdown, plain text, images), so that a text or
  image file in the vault is never classified as locally deleted. The code does
  otherwise: the scanner globs \<open>**/*.md\<close>. After the pull run of a bidirectional sync
  has downloaded \<open>img/photo.png\<close> and written its manifest entry, the push run of the
  same sync does not find the image in its scan, classifies it as deleted and deletes
  it from the remote folder. The glob also looks at names only: a directory called
  \<open>x.md\<close> is in the scan, and hashing it ends the run.
\<close>

theorem push_deletes_tracked_image:
  "recognized ''photo.png''
   \<and> pull_from_google_drive (\<lambda>b. b) False image_world =
       (None, image_world
          \<lparr>vault := Dir [(''img'', Dir [(''photo.png'', File ''png'' ''t1'')])],
           checksum_file := Some [(''img/photo.png'',
              \<lparr>checksum = ''png'', modified = ''t1'', drive_id = Some ''R1'',
               drive_modified = Some ''t''\<rparr>)],
           trace := [Download ''img/photo.png'']\<rparr>)
   \<and> get_all_notes (Dir [(''img'', Dir [(''photo.png'', File ''png'' ''t1'')])]) = []
   \<and> classify_push (\<lambda>b. b) (Dir [(''img'', Dir [(''photo.png'', File ''png'' ''t1'')])])
        [(''img/photo.png'', \<lparr>checksum = ''png'', modified = ''t1'', drive_id = Some ''R1'',
                               drive_modified = Some ''t''\<rparr>)]
       = Inr ([], [], [], [''img/photo.png''])
   \<and> sync_main (\<lambda>b. b) False image_world =
       (0, image_world
          \<lparr>vault := Dir [(''img'', Dir [(''photo.png'', File ''png'' ''t1'')])],
           checksum_file := Some [],
           drive := RNode DRIVE_FOLDER_ID ''vault'' FOLDER_MIME ''t'' []
                      [RNode ''F1'' ''img'' FOLDER_MIME ''t'' [] []],
           trace := [Download ''img/photo.png'', DeleteRemote ''img/photo.png'']\<rparr>)
   \<and> get_all_notes (Dir [(''x.md'', Dir [])]) = [[''x.md'']]
   \<and> classify_push (\<lambda>b. b) (Dir [(''x.md'', Dir [])]) [] = Inl IsADirectoryError"
  by code_simp

section \<open>The order of actions and the traces of runs\<close>

lemma get_or_create_folder_trace:
  "get_or_create_folder w f pid = Inr (fid, w') \<Longrightarrow> trace w' = trace w"
  by (auto simp: get_or_create_folder_def split: option.splits list.splits)

lemma resolve_folders_trace:
  "resolve_folders w cache seen fs pid = (r, w', cache', pid') \<Longrightarrow> trace w' = trace w"
proof (induction fs arbitrary: w cache seen pid)
  case Nil
  then show ?case by simp
next
  case (Cons f fs)
  from Cons.prems show ?case
    by (auto simp: Let_def split: option.splits sum.splits
        dest!: Cons.IH get_or_create_folder_trace)
qed

lemma upload_to_drive_trace:
  "upload_to_drive w parts pid fid = Inr (did, w') \<Longrightarrow> trace w' = trace w"
  by (auto simp: upload_to_drive_def split: option.splits fsnode.splits if_splits)

lemma upload_files_trace:
  "upload_files w nc cache ps = (r, w', nc') \<Longrightarrow>
   \<exists>us. trace w' = trace w @ us \<and> (\<forall>e \<in> set us. \<exists>q. e = Upload q)"
proof (induction ps arbitrary: w nc cache)
  case Nil
  then show ?case by simp
next
  case (Cons p ps)
  obtain r1 w1 cache1 pid1 where res: "resolve_folders w cache [] (butlast (path_parts p)) DRIVE_FOLDER_ID = (r1, w1, cache1, pid1)"
    by (cases "resolve_folders w cache [] (butlast (path_parts p)) DRIVE_FOLDER_ID") auto
  from resolve_folders_trace[OF res] have t1: "trace w1 = trace w" .
  show ?case
  proof (cases r1)
    case (Some e)
    with Cons.prems res t1 show ?thesis by (auto simp: Let_def)
  next
    case None
    show ?thesis
    proof (cases "dict_get nc p")
      case N: None
      with Cons.prems res t1 None show ?thesis by (auto simp: Let_def)
    next
      case (Some ent)
      let ?fid = "if truthy (drive_id ent) then drive_id ent
                  else get_drive_file_id w1 (path_name (path_parts p)) pid1"
      let ?w2 = "log_event w1 (Upload p)"
      have t2: "trace ?w2 = trace w @ [Upload p]" by (simp add: log_event_def t1)
      show ?thesis
      proof (cases "upload_to_drive ?w2 (path_parts p) pid1 ?fid")
        case (Inl e)
        with Cons.prems res None Some have "w' = ?w2" by (simp add: Let_def)
        with t2 show ?thesis by auto
      next
        case (Inr dw)
        obtain did w3 where dw: "dw = (did, w3)" by (cases dw)
        from Inr dw have t3: "trace w3 = trace w @ [Upload p]"
          using upload_to_drive_trace[of ?w2 "path_parts p" pid1 ?fid did w3] t2 by simp
        from Cons.prems res None Some Inr dw
        have "upload_files w3 (dict_set nc p (ent\<lparr>drive_id := Some did\<rparr>)) cache1 ps = (r, w', nc')"
          by (simp add: Let_def)
        from Cons.IH[OF this] obtain us where "trace w' = trace w3 @ us" "\<forall>e \<in> set us. \<exists>q. e = Upload q"
          by blast
        with t3 show ?thesis by (intro exI[of _ "Upload p # us"]) auto
      qed
    qed
  qed
qed

lemma upload_files_keys:
  "upload_files w nc cache ps = (None, w', nc') \<Longrightarrow> set (dict_keys nc') = set (dict_keys nc)"
proof (induction ps arbitrary: w nc cache)
  case Nil
  then show ?case by simp
next
  case (Cons p ps)
  obtain r1 w1 cache1 pid1 where res: "resolve_folders w cache [] (butlast (path_parts p)) DRIVE_FOLDER_ID = (r1, w1, cache1, pid1)"
    by (cases "resolve_folders w cache [] (butlast (path_parts p)) DRIVE_FOLDER_ID") auto
  show ?case
  proof (cases r1)
    case (Some e)
    with Cons.prems res show ?thesis by (auto simp: Let_def)
  next
    case None
    show ?thesis
    proof (cases "dict_get nc p")
      case N: None
      with Cons.prems res None show ?thesis by (auto simp: Let_def)
    next
      case (Some ent)
      then have mem: "p \<in> set (dict_keys nc)"
        using dict_get_None_iff[of nc p] by auto
      let ?fid = "if truthy (drive_id ent) then drive_id ent
                  else get_drive_file_id w1 (path_name (path_parts p)) pid1"
      let ?w2 = "log_event w1 (Upload p)"
      show ?thesis
      proof (cases "upload_to_drive ?w2 (path_parts p) pid1 ?fid")
        case (Inl e)
        with Cons.prems res None Some show ?thesis by (simp add: Let_def)
      next
        case (Inr dw)
        obtain did w3 where dw: "dw = (did, w3)" by (cases dw)
        from Cons.prems res None Some Inr dw
        have "upload_files w3 (dict_set nc p (ent\<lparr>drive_id := Some did\<rparr>)) cache1 ps = (None, w', nc')"
          by (simp add: Let_def)
        from Cons.IH[OF this] mem show ?thesis by (auto simp: keys_dict_set)
      qed
    qed
  qed
qed

lemma delete_from_drive_trace: "delete_from_drive w did = Inr w' \<Longrightarrow> trace w' = trace w"
  by (auto simp: delete_from_drive_def split: option.splits)

lemma delete_files_trace:
  "delete_files w old ps = (r, w') \<Longrightarrow>
   \<exists>ds. trace w' = trace w @ ds \<and>
     (\<forall>e \<in> set ds. \<exists>q ent. e = DeleteRemote q \<and> dict_get old q = Some ent \<and> truthy (drive_id ent))"
proof (induction ps arbitrary: w)
  case Nil
  then show ?case by simp
next
  case (Cons p ps)
  show ?case
  proof (cases "dict_get old p")
    case None
    with Cons.prems show ?thesis by auto
  next
    case (Some ent)
    show ?thesis
    proof (cases "truthy (drive_id ent)")
      case False
      with Cons.prems Some have "delete_files w old ps = (r, w')"
        by (cases "drive_id ent") (auto split: if_splits)
      from Cons.IH[OF this] show ?thesis .
    next
      case True
      then obtain did where did: "drive_id ent = Some did" "did \<noteq> []"
        by (cases "drive_id ent") auto
      let ?w1 = "log_event w (DeleteRemote p)"
      have t1: "trace ?w1 = trace w @ [DeleteRemote p]" by (simp add: log_event_def)
      obtain w2 where w2: "delete_files w2 old ps = (r, w')" "trace w2 = trace ?w1"
      proof (cases "delete_from_drive ?w1 did")
        case (Inl e)
        with Cons.prems Some did have "delete_files ?w1 old ps = (r, w')" by (simp add: Let_def)
        then show ?thesis using that by blast
      next
        case (Inr w2)
        with Cons.prems Some did have "delete_files w2 old ps = (r, w')" by (simp add: Let_def)
        moreover from Inr have "trace w2 = trace ?w1" by (rule delete_from_drive_trace)
        ultimately show ?thesis using that by blast
      qed
      from Cons.IH[OF w2(1)] obtain ds where ds: "trace w' = trace w2 @ ds"
        "\<forall>e \<in> set ds. \<exists>q ent. e = DeleteRemote q \<and> dict_get old q = Some ent \<and> truthy (drive_id ent)"
        by blast
      with w2(2) t1 Some True show ?thesis
        by (intro exI[of _ "DeleteRemote p # ds"]) auto
    qed
  qed
qed


lemma push_run_cases:
  assumes "sync_to_google_drive H w = (r, w')"
  obtains (idle) "w' = w"
  | (aborted) nc nf mf df e nc1 where
      "classify_push H (vault w) (load_checksums w) = Inr (nc, nf, mf, df)"
      "upload_files w nc [] (nf @ mf) = (Some e, w', nc1)"
  | (finished) nc nf mf df w1 nc1 r2 w2 where
      "service_available w"
      "classify_push H (vault w) (load_checksums w) = Inr (nc, nf, mf, df)"
      "\<not> (nf = [] \<and> mf = [] \<and> df = [])"
      "upload_files w nc [] (nf @ mf) = (None, w1, nc1)"
      "delete_files w1 (load_checksums w) df = (r2, w2)"
      "r = r2" "w' = (if r2 = None then save_checksums w2 nc1 else w2)"
proof (cases "service_available w")
  case False
  with assms have "w' = w" by (simp add: sync_to_google_drive_def get_google_drive_service_def)
  then show ?thesis by (rule idle)
next
  case True
  show ?thesis
  proof (cases "classify_push H (vault w) (load_checksums w)")
    case (Inl e)
    with assms True have "w' = w"
      by (simp add: sync_to_google_drive_def get_google_drive_service_def)
    then show ?thesis by (rule idle)
  next
    case (Inr c)
    obtain nc nf mf df where c: "c = (nc, nf, mf, df)" by (cases c)
    show ?thesis
    proof (cases "nf = [] \<and> mf = [] \<and> df = []")
      case T: True
      with assms True Inr c have "w' = w"
        by (simp add: sync_to_google_drive_def get_google_drive_service_def)
      then show ?thesis by (rule idle)
    next
      case False
      obtain r1 w1 nc1 where u: "upload_files w nc [] (nf @ mf) = (r1, w1, nc1)"
        by (cases "upload_files w nc [] (nf @ mf)") auto
      show ?thesis
      proof (cases r1)
        case (Some e)
        with assms True Inr c False u have "w' = w1"
          by (auto simp: sync_to_google_drive_def get_google_drive_service_def)
        with u Some Inr c show ?thesis by (intro aborted) auto
      next
        case None
        obtain r2 w2 where d: "delete_files w1 (load_checksums w) df = (r2, w2)"
          by (cases "delete_files w1 (load_checksums w) df") auto
        from assms True Inr c False u None d
        have "r = r2" "w' = (if r2 = None then save_checksums w2 nc1 else w2)"
          by (cases r2; auto simp: sync_to_google_drive_def get_google_drive_service_def)+
        with True Inr c False u None d show ?thesis by (intro finished) auto
      qed
    qed
  qed
qed

lemma push_trace:
  assumes "sync_to_google_drive H w = (r, w')"
  shows "\<exists>us ds. trace w' = trace w @ us @ ds \<and> (\<forall>e \<in> set us. \<exists>q. e = Upload q) \<and>
     (\<forall>e \<in> set ds. \<exists>q ent. e = DeleteRemote q \<and> dict_get (load_checksums w) q = Some ent
         \<and> truthy (drive_id ent))"
  using assms
proof (cases rule: push_run_cases)
  case idle
  then show ?thesis by (intro exI[of _ "[]"]) simp
next
  case (aborted nc nf mf df e nc1)
  from upload_files_trace[OF aborted(2)] obtain us where
    "trace w' = trace w @ us" "\<forall>e \<in> set us. \<exists>q. e = Upload q" by blast
  then show ?thesis by (intro exI[of _ us] exI[of _ "[]"]) simp
next
  case (finished nc nf mf df w1 nc1 r2 w2)
  from upload_files_trace[OF finished(4)] obtain us where
    us: "trace w1 = trace w @ us" "\<forall>e \<in> set us. \<exists>q. e = Upload q" by blast
  from delete_files_trace[OF finished(5)] obtain ds where
    ds: "trace w2 = trace w1 @ ds"
      "\<forall>e \<in> set ds. \<exists>q ent. e = DeleteRemote q \<and> dict_get (load_checksums w) q = Some ent
         \<and> truthy (drive_id ent)" by blast
  from finished(7) have "trace w' = trace w2" by (simp add: save_checksums_def)
  with us ds show ?thesis by (intro exI[of _ us] exI[of _ ds]) simp
qed

lemma download_file_trace:
  "download_file w fid parts = (r, w') \<Longrightarrow> trace w' = trace w"
  by (auto simp: download_file_def split: sum.splits option.splits)

lemma download_one_trace:
  "download_one H w lc p info = (r, w', lc') \<Longrightarrow> trace w' = trace w"
proof -
  assume a: "download_one H w lc p info = (r, w', lc')"
  obtain r0 w0 where d: "download_file w (info_id info) (path_parts p) = (r0, w0)"
    by (cases "download_file w (info_id info) (path_parts p)")
  from a d have "w' = w0"
    by (cases r0) (auto simp: download_one_def split: sum.splits)
  with download_file_trace[OF d] show ?thesis by simp
qed

lemma download_files_trace:
  "download_files H w lc dfs ps = (r, w', lc') \<Longrightarrow>
   \<exists>us. trace w' = trace w @ us \<and> (\<forall>e \<in> set us. \<exists>q. e = Download q)"
proof (induction ps arbitrary: w lc)
  case Nil
  then show ?case by simp
next
  case (Cons p ps)
  show ?case
  proof (cases "dict_get dfs p")
    case None
    with Cons.prems show ?thesis by auto
  next
    case (Some info)
    let ?w1 = "log_event w (Download p)"
    have t1: "trace ?w1 = trace w @ [Download p]" by (simp add: log_event_def)
    obtain c w2 lc2 where one: "download_one H ?w1 lc p info = (c, w2, lc2)"
      by (cases "download_one H ?w1 lc p info") auto
    from download_one_trace[OF one] have t2: "trace w2 = trace ?w1" .
    from Cons.prems Some one have "download_files H w2 lc2 dfs ps = (r, w', lc')" by simp
    from Cons.IH[OF this] obtain us where "trace w' = trace w2 @ us" "\<forall>e \<in> set us. \<exists>q. e = Download q"
      by blast
    with t2 t1 show ?thesis by (intro exI[of _ "Download p # us"]) auto
  qed
qed

lemma delete_local_files_trace:
  "delete_local_files w lc ps = (w', lc') \<Longrightarrow>
   \<exists>ds. trace w' = trace w @ ds \<and> (\<forall>e \<in> set ds. \<exists>q. e = DeleteLocal q)"
proof (induction ps arbitrary: w lc)
  case Nil
  then show ?case by simp
next
  case (Cons p ps)
  show ?case
  proof (cases "path_exists (vault w) p")
    case False
    with Cons.prems have "delete_local_files w (dict_del lc p) ps = (w', lc')" by simp
    from Cons.IH[OF this] show ?thesis .
  next
    case True
    let ?w1 = "log_event w (DeleteLocal p)"
    have t1: "trace ?w1 = trace w @ [DeleteLocal p]" by (simp add: log_event_def)
    obtain w2 lc2 where w2: "delete_local_files w2 lc2 ps = (w', lc')" "trace w2 = trace ?w1"
    proof (cases "unlink (vault ?w1) (path_parts p)")
      case (Inl e)
      with Cons.prems True have "delete_local_files ?w1 lc ps = (w', lc')" by (simp add: Let_def)
      then show ?thesis using that by blast
    next
      case (Inr v')
      with Cons.prems True have "delete_local_files (?w1\<lparr>vault := v'\<rparr>) (dict_del lc p) ps = (w', lc')"
        by (simp add: Let_def)
      then show ?thesis using that[of "?w1\<lparr>vault := v'\<rparr>"] by simp
    qed
    from Cons.IH[OF w2(1)] obtain ds where "trace w' = trace w2 @ ds" "\<forall>e \<in> set ds. \<exists>q. e = DeleteLocal q"
      by blast
    with w2(2) t1 show ?thesis by (intro exI[of _ "DeleteLocal p # ds"]) auto
  qed
qed

lemma pull_trace:
  assumes "pull_from_google_drive H dry_run w = (r, w')"
  shows "\<exists>us ds. trace w' = trace w @ us @ ds \<and> (\<forall>e \<in> set us. \<exists>q. e = Download q) \<and>
     (\<forall>e \<in> set ds. \<exists>q. e = DeleteLocal q)"
proof -
  let ?dfs = "list_drive_files (short_pages w) (drive w) []"
  let ?lc = "load_checksums w"
  obtain nf mf df where c: "classify_pull (vault w) ?lc ?dfs = (nf, mf, df)"
    by (cases "classify_pull (vault w) ?lc ?dfs") auto
  obtain r1 w1 lc1 where d: "download_files H w ?lc ?dfs (nf @ mf) = (r1, w1, lc1)"
    by (cases "download_files H w ?lc ?dfs (nf @ mf)") auto
  obtain w2 lc2 where l: "delete_local_files w1 lc1 df = (w2, lc2)"
    by (cases "delete_local_files w1 lc1 df") auto
  from download_files_trace[OF d] obtain us where
    us: "trace w1 = trace w @ us" "\<forall>e \<in> set us. \<exists>q. e = Download q" by blast
  from delete_local_files_trace[OF l] obtain ds where
    ds: "trace w2 = trace w1 @ ds" "\<forall>e \<in> set ds. \<exists>q. e = DeleteLocal q" by blast
  consider (idle) "w' = w" | (aborted) "w' = w1" | (finished) "trace w' = trace w2"
    using assms c d l
    by (cases r1)
      (auto simp: pull_from_google_drive_def get_google_drive_service_def Let_def
        save_checksums_def split: if_splits)
  then show ?thesis
  proof cases
    case idle
    then show ?thesis by (intro exI[of _ "[]"]) simp
  next
    case aborted
    with us show ?thesis by (intro exI[of _ us] exI[of _ "[]"]) simp
  next
    case finished
    with us ds show ?thesis by (intro exI[of _ us] exI[of _ ds]) simp
  qed
qed


text \<open>
  Claim C8. In a push run and in a pull run alike, the calls the run issues are first
  transfers (uploads in push, downloads in pull) and then deletions (remote deletes in
  push, local deletes in pull): no transfer follows a deletion.
\<close>

theorem transfers_before_deletions:
  "(\<exists>ts ds. trace (snd (sync_to_google_drive H w)) = trace w @ ts @ ds
        \<and> (\<forall>e \<in> set ts. is_transfer e) \<and> (\<forall>e \<in> set ds. is_deletion e))
   \<and> (\<exists>ts ds. trace (snd (pull_from_google_drive H dry_run w)) = trace w @ ts @ ds
        \<and> (\<forall>e \<in> set ts. is_transfer e) \<and> (\<forall>e \<in> set ds. is_deletion e))"
proof
  obtain r w' where run: "sync_to_google_drive H w = (r, w')"
    by (cases "sync_to_google_drive H w")
  from push_trace[OF run] obtain us ds where
    "trace w' = trace w @ us @ ds" "\<forall>e \<in> set us. \<exists>q. e = Upload q"
    "\<forall>e \<in> set ds. \<exists>q ent. e = DeleteRemote q \<and> dict_get (load_checksums w) q = Some ent
         \<and> truthy (drive_id ent)"
    by blast
  then have "trace w' = trace w @ us @ ds \<and> (\<forall>e \<in> set us. is_transfer e) \<and> (\<forall>e \<in> set ds. is_deletion e)"
    by auto
  then show "\<exists>ts ds. trace (snd (sync_to_google_drive H w)) = trace w @ ts @ ds
        \<and> (\<forall>e \<in> set ts. is_transfer e) \<and> (\<forall>e \<in> set ds. is_deletion e)"
    unfolding run snd_conv by blast
next
  obtain r w' where run: "pull_from_google_drive H dry_run w = (r, w')"
    by (cases "pull_from_google_drive H dry_run w")
  from pull_trace[OF run] obtain us ds where
    "trace w' = trace w @ us @ ds" "\<forall>e \<in> set us. \<exists>q. e = Download q"
    "\<forall>e \<in> set ds. \<exists>q. e = DeleteLocal q"
    by blast
  then have "trace w' = trace w @ us @ ds \<and> (\<forall>e \<in> set us. is_transfer e) \<and> (\<forall>e \<in> set ds. is_deletion e)"
    by auto
  then show "\<exists>ts ds. trace (snd (pull_from_google_drive H dry_run w)) = trace w @ ts @ ds
        \<and> (\<forall>e \<in> set ts. is_transfer e) \<and> (\<forall>e \<in> set ds. is_deletion e)"
    unfolding run snd_conv by blast
qed

theorem transfers_before_deletions_witness:
  "trace (snd (sync_to_google_drive (\<lambda>b. b) push_world))
     = trace push_world @ [Upload ''b.md''] @ [DeleteRemote ''old.md'']
   \<and> trace (snd (pull_from_google_drive (\<lambda>b. b) False pull_world))
     = trace pull_world @ [Download ''c.md''] @ [DeleteLocal ''gone.md'']
   \<and> (\<exists>ts ds. trace (snd (sync_to_google_drive (\<lambda>b. b) push_world)) = trace push_world @ ts @ ds)
   \<and> (\<exists>ts ds. trace (snd (pull_from_google_drive (\<lambda>b. b) False pull_world)) = trace pull_world @ ts @ ds)"
proof -
  have a: "trace (snd (sync_to_google_drive (\<lambda>b. b) push_world))
     = trace push_world @ [Upload ''b.md''] @ [DeleteRemote ''old.md'']"
    by code_simp
  have b: "trace (snd (pull_from_google_drive (\<lambda>b. b) False pull_world))
     = trace pull_world @ [Download ''c.md''] @ [DeleteLocal ''gone.md'']"
    by code_simp
  from transfers_before_deletions [of "\<lambda>b. b" push_world False]
  have c: "\<exists>ts ds. trace (snd (sync_to_google_drive (\<lambda>b. b) push_world)) = trace push_world @ ts @ ds"
    by blast
  from transfers_before_deletions [of "\<lambda>b. b" pull_world False]
  have d: "\<exists>ts ds. trace (snd (pull_from_google_drive (\<lambda>b. b) False pull_world)) = trace pull_world @ ts @ ds"
    by blast
  from a b c d show ?thesis by blast
qed

lemma set_dict_set: "set (dict_set d k v) \<subseteq> insert (k, v) (set d)"
  by (induction d) auto

text \<open>The entries that \<open>--init\<close> writes carry no remote object id.\<close>

lemma init_entries_no_remote_id:
  "init_entries H v ns cs = Inr cs' \<Longrightarrow> \<forall>e \<in> snd ` set cs. drive_id e = None \<Longrightarrow>
   \<forall>e \<in> snd ` set cs'. drive_id e = None"
proof (induction ns arbitrary: cs)
  case Nil
  then show ?case by simp
next
  case (Cons n ns)
  from Cons.prems(1) obtain c mt where
    step: "init_entries H v ns (dict_set cs (join_path n)
             \<lparr>checksum = c, modified = mt, drive_id = None, drive_modified = None\<rparr>) = Inr cs'"
    by (auto split: sum.splits)
  have "\<forall>e \<in> snd ` set (dict_set cs (join_path n)
             \<lparr>checksum = c, modified = mt, drive_id = None, drive_modified = None\<rparr>). drive_id e = None"
    using Cons.prems(2)
      set_dict_set[of cs "join_path n" "\<lparr>checksum = c, modified = mt, drive_id = None, drive_modified = None\<rparr>"]
    by auto
  from Cons.IH[OF step this] show ?case .
qed

text \<open>
  Claim C10. When a manifest entry has no remote object id, as the entries written by
  \<open>--init\<close> have none, and its path is not in the local scan, a push run that
  completes saves a manifest without that entry and issues no remote delete for the path.
\<close>

theorem push_drops_entry_without_remote_id:
  assumes "service_available w"
    and "dict_get (load_checksums w) p = Some ent"
    and "\<not> truthy (drive_id ent)"
    and "p \<notin> join_path ` set (get_all_notes (vault w))"
    and "sync_to_google_drive H w = (None, w')"
  shows "dict_get (load_checksums w') p = None
       \<and> (\<exists>evs. trace w' = trace w @ evs \<and> DeleteRemote p \<notin> set evs)"
proof -
  from push_trace[OF assms(5)] obtain us ds where
    t: "trace w' = trace w @ us @ ds" and us: "\<forall>e \<in> set us. \<exists>q. e = Upload q"
    and ds: "\<forall>e \<in> set ds. \<exists>q ent. e = DeleteRemote q \<and> dict_get (load_checksums w) q = Some ent
         \<and> truthy (drive_id ent)"
    by blast
  from us have "DeleteRemote p \<notin> set us" by auto
  moreover from ds assms(2,3) have "DeleteRemote p \<notin> set ds" by auto
  ultimately have tr: "\<exists>evs. trace w' = trace w @ evs \<and> DeleteRemote p \<notin> set evs"
    using t by (intro exI[of _ "us @ ds"]) simp
  from assms(2) have old: "p \<in> set (dict_keys (load_checksums w))"
    using dict_get_None_iff[of "load_checksums w" p] by auto
  have "dict_get (load_checksums w') p = None"
    using assms(5)
  proof (cases rule: push_run_cases)
    case idle
    have False
    proof (cases "classify_push H (vault w) (load_checksums w)")
      case (Inl e)
      with assms(1,5) show False
        by (simp add: sync_to_google_drive_def get_google_drive_service_def)
    next
      case (Inr c)
      obtain nc nf mf df where c: "c = (nc, nf, mf, df)" by (cases c)
      from Inr c obtain nf' mf' where s: "scan_notes H (vault w) (load_checksums w) (get_all_notes (vault w)) ([], [], []) = Inr (nc, nf', mf')"
        and df: "df = filter (\<lambda>old_file. old_file \<notin> set (dict_keys nc)) (dict_keys (load_checksums w))"
        by (auto simp: classify_push_def split: sum.splits)
      from scan_notes_keys[OF s] assms(4) have "p \<notin> set (dict_keys nc)"
        by (simp add: dict_keys_def)
      with old df have "p \<in> set df" by simp
      then have ne: "df \<noteq> []" by auto
      obtain r1 w1 nc1 where u: "upload_files w nc [] (nf @ mf) = (r1, w1, nc1)"
        by (cases "upload_files w nc [] (nf @ mf)") auto
      obtain r2 w2 where d: "delete_files w1 (load_checksums w) df = (r2, w2)"
        by (cases "delete_files w1 (load_checksums w) df") auto
      from assms(1,5) Inr c ne u d have sv: "r1 = None" "r2 = None" "w' = save_checksums w2 nc1"
        by (cases r1; cases r2;
            auto simp: sync_to_google_drive_def get_google_drive_service_def)+
      from upload_files_keys[of w nc "[]" "nf @ mf" w1 nc1] u sv(1)
      have "set (dict_keys nc1) = set (dict_keys nc)" by simp
      with \<open>p \<notin> set (dict_keys nc)\<close> sv(3) idle have "p \<notin> set (dict_keys (load_checksums w))"
        by (simp add: save_checksums_def load_checksums_def)
      with old show False by simp
    qed
    then show ?thesis ..
  next
    case (aborted nc nf mf df e nc1)
    obtain r1 w1 nc1' where u: "upload_files w nc [] (nf @ mf) = (r1, w1, nc1')"
      by (cases "upload_files w nc [] (nf @ mf)") auto
    with aborted(2) have "r1 = Some e" by simp
    with assms(1,5) aborted(1) u show ?thesis
      by (auto simp: sync_to_google_drive_def get_google_drive_service_def split: if_splits)
  next
    case (finished nc nf mf df w1 nc1 r2 w2)
    from finished(2) obtain nf' mf' where s: "scan_notes H (vault w) (load_checksums w) (get_all_notes (vault w)) ([], [], []) = Inr (nc, nf', mf')"
      by (auto simp: classify_push_def split: sum.splits)
    from scan_notes_keys[OF s] assms(4) have "p \<notin> set (dict_keys nc)"
      by (simp add: dict_keys_def)
    moreover from upload_files_keys[OF finished(4)] have "set (dict_keys nc1) = set (dict_keys nc)" .
    ultimately have "dict_get nc1 p = None" by (simp add: dict_get_None_iff)
    moreover from finished(6,7) have "w' = save_checksums w2 nc1" by simp
    ultimately show ?thesis by (simp add: save_checksums_def load_checksums_def)
  qed
  with tr show ?thesis by simp
qed

theorem push_drops_entry_without_remote_id_witness:
  "sync_to_google_drive (\<lambda>b. b) init_world =
     (None, init_world\<lparr>checksum_file := Some [(''a.md'', \<lparr>checksum = ''A'', modified = ''m'',
                                       drive_id = None, drive_modified = None\<rparr>)]\<rparr>)
   \<and> dict_get (load_checksums (snd (sync_to_google_drive (\<lambda>b. b) init_world))) ''gone.md'' = None
   \<and> (\<exists>evs. trace (snd (sync_to_google_drive (\<lambda>b. b) init_world)) = trace init_world @ evs
          \<and> DeleteRemote ''gone.md'' \<notin> set evs)
   \<and> drive (snd (sync_to_google_drive (\<lambda>b. b) init_world)) = drive init_world"
proof -
  let ?w' = "init_world\<lparr>checksum_file := Some [(''a.md'', \<lparr>checksum = ''A'', modified = ''m'',
                                       drive_id = None, drive_modified = None\<rparr>)]\<rparr>"
  let ?ent = "\<lparr>checksum = ''G'', modified = ''m'', drive_id = None, drive_modified = None\<rparr>"
  have h1: "service_available init_world" by (simp add: init_world_def)
  have h2: "dict_get (load_checksums init_world) ''gone.md'' = Some ?ent" by code_simp
  have h3: "\<not> truthy (drive_id ?ent)" by simp
  have h4: "''gone.md'' \<notin> join_path ` set (get_all_notes (vault init_world))" by code_simp
  have h5: "sync_to_google_drive (\<lambda>b. b) init_world = (None, ?w')" by code_simp
  from push_drops_entry_without_remote_id [OF h1 h2 h3 h4 h5] h5
  show ?thesis by simp
qed

section \<open>Runs on the example worlds\<close>

text \<open>
  Claim C1 says that a pull run right after a successful push run classifies nothing.
  On the scenario of the spec the code does otherwise: the push run uploads
  \<open>notes/a.md\<close> and saves an entry with the new remote id but without a remote
  modification time, and the pull run that follows classifies the path as modified and
  downloads it again.
\<close>

theorem pull_after_push_redownloads:
  "sync_to_google_drive (\<lambda>b. b) first_world =
     (None, first_world
        \<lparr>checksum_file := Some [(''notes/a.md'', \<lparr>checksum = ''hello'', modified = ''m'',
                                   drive_id = Some ''new-i'', drive_modified = None\<rparr>)],
         drive := RNode DRIVE_FOLDER_ID ''vault'' FOLDER_MIME ''t'' []
                    [RNode ''new-'' ''notes'' FOLDER_MIME ''t1'' []
                       [RNode ''new-i'' ''a.md'' UPLOAD_MIME ''t1'' ''hello'' []]],
         next_id := 2, trace := [Upload ''notes/a.md'']\<rparr>)
   \<and> classify_pull (vault (snd (sync_to_google_drive (\<lambda>b. b) first_world)))
        (load_checksums (snd (sync_to_google_drive (\<lambda>b. b) first_world)))
        (list_drive_files [] (drive (snd (sync_to_google_drive (\<lambda>b. b) first_world))) [])
      = ([], [''notes/a.md''], [])
   \<and> trace (snd (pull_from_google_drive (\<lambda>b. b) False
                   (snd (sync_to_google_drive (\<lambda>b. b) first_world))))
      = [Upload ''notes/a.md'', Download ''notes/a.md'']"
  by code_simp

text \<open>
  Claim C4 says that a failing action is skipped, that the other actions of the batch
  still run and that the failed path keeps its manifest entry. In a push run the code
  does otherwise: the update of \<open>a.md\<close> fails and ends the run, so that \<open>c.md\<close> is
  never uploaded, the remote delete for \<open>d.md\<close> is never issued and no manifest is
  saved; and a remote delete that fails is caught, but the saved manifest has lost the
  entry.
\<close>

theorem failed_upload_aborts_push:
  "sync_to_google_drive (\<lambda>b. b) stale_world =
     (Some HttpError, stale_world\<lparr>trace := [Upload ''a.md'']\<rparr>)
   \<and> sync_to_google_drive (\<lambda>b. b) stale_delete_world =
     (None, stale_delete_world\<lparr>checksum_file := Some [], trace := [DeleteRemote ''d.md'']\<rparr>)"
  by code_simp

text \<open>
  Claim C5 says that the exit status is non-zero when a phase fails outright and that a
  failure on one file leaves it at zero. The code does otherwise: without the remote
  service both scripts, and with them the orchestrator, exit with status 0, and a push
  run whose upload of one file fails exits with status 1.
\<close>

theorem unavailable_service_exits_zero:
  "exit_status (fst (pull_from_google_drive (\<lambda>b. b) False offline_world)) = 0
   \<and> exit_status (fst (push_main (\<lambda>b. b) NoArgs offline_world)) = 0
   \<and> sync_main (\<lambda>b. b) False offline_world = (0, offline_world)
   \<and> exit_status (fst (push_main (\<lambda>b. b) NoArgs stale_world)) = 1"
  by code_simp

end
